theory Spec2Isabelle
  imports Main "HOL-Library.Sublist"
begin

section \<open>Python strings\<close>

text \<open>
  A \<open>str\<close> is a \<open>string\<close> (a list of characters). The scraper only compares
  whole strings, tests prefixes and suffixes, and cuts at ASCII separators, so one
  \<open>char\<close> stands for one character of the \<open>str\<close>: the characters with a code point
  below 256.

  \<^item> \<open>str_startswith s p\<close> is \<open>s.startswith(p)\<close>, \<open>str_endswith s p\<close> is \<open>s.endswith(p)\<close>;
  \<^item> \<open>str_strip s chars\<close> is \<open>s.strip(chars)\<close>: every leading and every trailing character
    that occurs in \<open>chars\<close> is removed;
  \<^item> \<open>str_split s sep\<close> is \<open>s.split(sep)\<close> for a separator string: the text is scanned from
    the left, every occurrence of \<open>sep\<close> found ends a piece and the scan goes on behind it;
    the empty string gives the one piece \<open>''''\<close>. (Python raises \<open>ValueError\<close> on an empty
    separator; the scraper only passes the constants \<open>"/"\<close>, \<open>": "\<close> and \<open>"\n"\<close>.)
  \<^item> \<open>str_join sep xs\<close> is \<open>sep.join(xs)\<close>;
  \<^item> \<open>str_of_nat n\<close> is \<open>str(n)\<close> for a non-negative \<open>int\<close>: its decimal digits.
\<close>

definition str_startswith :: "string \<Rightarrow> string \<Rightarrow> bool" where
  "str_startswith s p = prefix p s"

definition str_endswith :: "string \<Rightarrow> string \<Rightarrow> bool" where
  "str_endswith s p = suffix p s"

definition str_strip :: "string \<Rightarrow> string \<Rightarrow> string" where
  "str_strip s chars =
     rev (dropWhile (\<lambda>c. c \<in> set chars) (rev (dropWhile (\<lambda>c. c \<in> set chars) s)))"

text \<open>
  The characters \<open>s.strip()\<close> removes when it is given no argument: those of which
  \<open>str.isspace\<close> holds, among the code points below 256 (the ASCII white space, the
  separators \<open>U+001C\<close> to \<open>U+001F\<close>, next line \<open>U+0085\<close> and no-break space \<open>U+00A0\<close>).
\<close>

definition whitespace :: string where
  "whitespace =
     [CHR 0x20, CHR 0x09, CHR 0x0A, CHR 0x0B, CHR 0x0C, CHR 0x0D,
      CHR 0x1C, CHR 0x1D, CHR 0x1E, CHR 0x1F, CHR 0x85, CHR 0xA0]"

function str_split :: "string \<Rightarrow> string \<Rightarrow> string list" where
  "str_split s sep =
     (if s = [] then [[]]
      else if sep \<noteq> [] \<and> prefix sep s then [] # str_split (drop (length sep) s) sep
      else (let segs = str_split (tl s) sep in (hd s # hd segs) # tl segs))"
  by pat_completeness auto
termination
  by (relation "measure (\<lambda>(s, sep). length s)") auto

declare str_split.simps [simp del]

fun str_join :: "string \<Rightarrow> string list \<Rightarrow> string" where
  "str_join sep [] = []"
| "str_join sep [x] = x"
| "str_join sep (x # y # ys) = x @ sep @ str_join sep (y # ys)"

fun str_of_nat :: "nat \<Rightarrow> string" where
  "str_of_nat n =
     (if n < 10 then [char_of (48 + n)]
      else str_of_nat (n div 10) @ [char_of (48 + n mod 10)])"

declare str_of_nat.simps [simp del]

section \<open>Exceptions\<close>

text \<open>
  The exceptions the modelled code can raise: \<open>None.startswith\<close> is an \<open>AttributeError\<close>,
  a missing label a \<open>KeyError\<close>, an index outside a list an \<open>IndexError\<close>;
  \<open>LocationParseError\<close> is urllib3's, which \<open>requests\<close> lets through and which is no
  \<open>RequestException\<close>; the others come from the file system on export (\<open>OSError\<close> is the
  one pandas raises itself). A function that can raise returns \<open>error + 'a\<close>.
\<close>

datatype error =
  AttributeError | KeyError | IndexError | LocationParseError
  | FileExistsError | FileNotFoundError | NotADirectoryError | IsADirectoryError | OSError

text \<open>\<open>xs[i]\<close> for \<open>i \<ge> 0\<close>.\<close>

definition list_item :: "'a list \<Rightarrow> nat \<Rightarrow> error + 'a" where
  "list_item xs i = (if i < length xs then Inr (xs ! i) else Inl IndexError)"

section \<open>The URL-depth decomposer: \<open>process_links\<close>\<close>

subsection \<open>Data frames\<close>

text \<open>
  A cell of a table is a string or null (\<open>None\<close>): pandas' two missing markers, \<open>None\<close>
  and \<open>NaN\<close>, are both null (\<open>isna\<close> holds of both, and \<open>to_csv\<close> writes both as an empty
  field). A \<open>DataFrame\<close> with the default \<open>RangeIndex\<close> is its number of rows and its
  columns in order, each a label with one cell per row.
\<close>

type_synonym cell = "string option"

record data_frame =
  n_rows :: nat
  cols :: "(string \<times> cell list) list"

text \<open>\<open>pd.DataFrame(links, columns=["Links"])\<close>.\<close>

definition DataFrame :: "string list \<Rightarrow> data_frame" where
  "DataFrame links = \<lparr>n_rows = length links, cols = [(''Links'', map Some links)]\<rparr>"

text \<open>\<open>data_frame.columns\<close>.\<close>

definition columns :: "data_frame \<Rightarrow> string list" where
  "columns df = map fst (cols df)"

text \<open>\<open>data_frame[name] = None\<close> for a label that is not a column yet: a new last column
  of nulls.\<close>

definition add_column :: "string \<Rightarrow> data_frame \<Rightarrow> data_frame" where
  "add_column name df = df\<lparr>cols := cols df @ [(name, replicate (n_rows df) None)]\<rparr>"

text \<open>
  \<open>data_frame.loc[idx, keys] = vals\<close> for a row label \<open>idx\<close> of the frame, a list of
  column labels and as many values. pandas first makes every label of \<open>keys\<close> a column
  (\<open>_ensure_listlike_indexer\<close>: the labels that are missing are appended in the order of
  \<open>keys\<close>, filled with nulls), then writes the values into row \<open>idx\<close>.
\<close>

definition ensure_columns :: "string list \<Rightarrow> data_frame \<Rightarrow> data_frame" where
  "ensure_columns keys df =
     fold (\<lambda>k d. if k \<in> set (columns d) then d else add_column k d) keys df"

definition set_cell :: "nat \<Rightarrow> string \<Rightarrow> cell \<Rightarrow> data_frame \<Rightarrow> data_frame" where
  "set_cell idx k v df =
     df\<lparr>cols := map (\<lambda>(c, vs). if c = k then (c, vs[idx := v]) else (c, vs)) (cols df)\<rparr>"

definition loc_set :: "nat \<Rightarrow> string list \<Rightarrow> cell list \<Rightarrow> data_frame \<Rightarrow> data_frame" where
  "loc_set idx keys vals df =
     fold (\<lambda>(k, v). set_cell idx k v) (zip keys vals) (ensure_columns keys df)"

text \<open>
  \<open>data_frame.iterrows()\<close>: the pairs of a row label and the row's record (label and cell
  of every column), read from the frame as it is when the iteration starts.
\<close>

definition iterrows :: "data_frame \<Rightarrow> (nat \<times> (string \<times> cell) list) list" where
  "iterrows df = map (\<lambda>i. (i, map (\<lambda>(c, vs). (c, vs ! i)) (cols df))) [0..<n_rows df]"

subsection \<open>\<open>split_url\<close> and \<open>process_links\<close>\<close>

definition url_prefix :: string where
  "url_prefix = ''https://www.datacamp.com/''"

text \<open>
  \<open>split_url\<close> is local to \<open>process_links\<close> and reads its variable \<open>url_prefix\<close>, here the
  first argument.
\<close>

definition split_url :: "string \<Rightarrow> string \<Rightarrow> cell list" where
  "split_url prefix_of_urls link =
     (if str_startswith link prefix_of_urls
      then map Some (str_split (str_strip (drop (length prefix_of_urls) link) ''/'') ''/'')
      else [None])"

text \<open>\<open>"subdir" + str(j + 1)\<close>.\<close>

definition subdir :: "nat \<Rightarrow> string" where
  "subdir j = ''subdir'' @ str_of_nat (j + 1)"

text \<open>
  The first loop of \<open>process_links\<close>, over the rows of \<open>iterrows\<close>, with the frame and
  \<open>maximum_depth\<close> as its state. \<open>record["Links"]\<close> raises \<open>KeyError\<close> when the frame has
  no such column, and \<open>startswith\<close> on a null cell raises \<open>AttributeError\<close>.
\<close>

fun process_rows ::
  "string \<Rightarrow> (nat \<times> (string \<times> cell) list) list \<Rightarrow> data_frame \<times> nat \<Rightarrow> error + data_frame \<times> nat"
where
  "process_rows p [] (df, maximum_depth) = Inr (df, maximum_depth)"
| "process_rows p ((idx, record) # rest) (df, maximum_depth) =
     (case map_of record ''Links'' of
        None \<Rightarrow> Inl KeyError
      | Some None \<Rightarrow> Inl AttributeError
      | Some (Some link) \<Rightarrow>
          (let subdir_levels = split_url p link
           in process_rows p rest
                (loc_set idx (map subdir [0..<length subdir_levels]) subdir_levels df,
                 max maximum_depth (length subdir_levels))))"

text \<open>The second loop: every column up to \<open>maximum_depth\<close> that is still missing is added.\<close>

definition fill_columns :: "nat \<Rightarrow> data_frame \<Rightarrow> data_frame" where
  "fill_columns maximum_depth df =
     fold (\<lambda>depth d. if subdir depth \<notin> set (columns d) then add_column (subdir depth) d else d)
       [0..<maximum_depth] df"

text \<open>
  \<open>process_links\<close> updates the frame it is given and returns it: the model threads the one
  frame through both loops.
\<close>

definition process_links :: "data_frame \<Rightarrow> error + data_frame" where
  "process_links data_frame =
     (case process_rows url_prefix (iterrows data_frame) (data_frame, 0) of
        Inl e \<Rightarrow> Inl e
      | Inr (df, maximum_depth) \<Rightarrow> Inr (fill_columns maximum_depth df))"

subsection \<open>The decomposed table of the specification\<close>

text \<open>
  The table as the specification describes it, to compare \<open>process_links\<close> with:
  \<open>M\<close> is the maximum number of segments over all links (0 for no link), and the row of
  a link holds its segments in \<open>subdir1\<close>, \<open>subdir2\<close>, ... from the left, padded with nulls
  on the right up to \<open>subdirM\<close>.
\<close>

definition max_depth :: "string \<Rightarrow> string list \<Rightarrow> nat" where
  "max_depth p links = Max (insert 0 (set (map (\<lambda>l. length (split_url p l)) links)))"

definition cell_at :: "cell list \<Rightarrow> nat \<Rightarrow> cell" where
  "cell_at segs j = (if j < length segs then segs ! j else None)"

definition decompose :: "string \<Rightarrow> string list \<Rightarrow> data_frame" where
  "decompose p links =
     \<lparr>n_rows = length links,
      cols = (''Links'', map Some links) #
             map (\<lambda>j. (subdir j, map (\<lambda>l. cell_at (split_url p l) j) links))
               [0..<max_depth p links]\<rparr>"

text \<open>
  The frames the first loop goes through: the column of links, and \<open>M\<close> columns
  \<open>subdir1 .. subdirM\<close> whose cell in row \<open>i\<close> and column \<open>j\<close> is \<open>f i j\<close>.
\<close>

definition grid :: "string list \<Rightarrow> (nat \<Rightarrow> nat \<Rightarrow> cell) \<Rightarrow> nat \<Rightarrow> data_frame" where
  "grid links f M =
     \<lparr>n_rows = length links,
      cols = (''Links'', map Some links) #
             map (\<lambda>j. (subdir j, map (\<lambda>i. f i j) [0..<length links])) [0..<M]\<rparr>"

text \<open>The cell of a frame in row \<open>i\<close> of the column labelled \<open>c\<close> (null when there is no
  such column).\<close>

definition cell_of :: "data_frame \<Rightarrow> nat \<Rightarrow> string \<Rightarrow> cell" where
  "cell_of df i c = (case map_of (cols df) c of None \<Rightarrow> None | Some vs \<Rightarrow> vs ! i)"

text \<open>
  \<open>only_adds_subdirs df df'\<close>: \<open>df'\<close> has the rows of \<open>df\<close>, its columns are those of \<open>df\<close>
  followed by new columns labelled \<open>subdir1\<close>, \<open>subdir2\<close>, ..., and every column of \<open>df\<close>
  that has no such label is in \<open>df'\<close> with the cells it has in \<open>df\<close>.
\<close>

definition only_adds_subdirs :: "data_frame \<Rightarrow> data_frame \<Rightarrow> bool" where
  "only_adds_subdirs df df' \<longleftrightarrow>
     n_rows df' = n_rows df \<and>
     (\<exists>new. columns df' = columns df @ new \<and> set new \<subseteq> range subdir) \<and>
     (\<forall>c. c \<notin> range subdir \<longrightarrow> map_of (cols df') c = map_of (cols df) c)"

section \<open>The sitemap tree walker\<close>

subsection \<open>The web and the scraper's state\<close>

text \<open>
  The two capabilities the walker consumes are parameters of the model:
  \<^item> \<open>requests_get env endpoint\<close> is the outcome of \<open>requests.get(endpoint, headers=headers)\<close>:
    \<open>Response status_code text\<close> when a response arrives (the last one, behind the
    redirections that \<open>requests\<close> follows), with its status code and its text;
    \<open>RequestException\<close> when the call raises an exception of that class (connection error,
    timeout, invalid URL, too many redirections); \<open>Uncaught e\<close> when it raises an exception
    \<open>e\<close> that is no \<open>RequestException\<close>;
  \<^item> \<open>find_all_loc env xml\<close> is the list of the texts of the \<open>loc\<close> elements of
    \<open>BeautifulSoup(xml, "xml")\<close>, in document order.
  The web does not change during a run: the same endpoint always gives the same outcome.
\<close>

datatype response = Response nat string | RequestException | Uncaught error

record env =
  requests_get :: "string \<Rightarrow> response"
  find_all_loc :: "string \<Rightarrow> string list"

text \<open>
  \<open>result.raise_for_status()\<close> raises \<open>HTTPError\<close>, a \<open>RequestException\<close>, for the status
  codes 400 to 599 and for no other; \<open>raise_for_status status_code\<close> holds when it raises.
\<close>

definition raise_for_status :: "nat \<Rightarrow> bool" where
  "raise_for_status status_code \<longleftrightarrow> 400 \<le> status_code \<and> status_code < 600"

text \<open>
  \<open>retrieve_web_data\<close>: the \<open>except\<close> clause of line 46 catches a \<open>RequestException\<close>, that
  of \<open>requests.get\<close> and that of \<open>raise_for_status\<close>, and the function returns the empty
  text; any other exception leaves the function.
\<close>

definition retrieve_web_data :: "env \<Rightarrow> string \<Rightarrow> error + string" where
  "retrieve_web_data env endpoint =
     (case requests_get env endpoint of
        Response status_code text \<Rightarrow> if raise_for_status status_code then Inr '''' else Inr text
      | RequestException \<Rightarrow> Inr ''''
      | Uncaught e \<Rightarrow> Inl e)"

text \<open>
  \<open>request_fails env endpoint\<close>: the request for \<open>endpoint\<close> ends in a \<open>RequestException\<close>.
  \<open>only_request_exceptions env\<close>: no request of this web raises anything else.
\<close>

definition request_fails :: "env \<Rightarrow> string \<Rightarrow> bool" where
  "request_fails env endpoint =
     (case requests_get env endpoint of
        Response status_code text \<Rightarrow> raise_for_status status_code
      | RequestException \<Rightarrow> True
      | Uncaught e \<Rightarrow> False)"

definition only_request_exceptions :: "env \<Rightarrow> bool" where
  "only_request_exceptions env \<longleftrightarrow> (\<forall>endpoint e. requests_get env endpoint \<noteq> Uncaught e)"

text \<open>
  The \<open>loc\<close> entries of the document at a URL, as \<open>process_sitemap\<close> reads them (none when
  the request raises and no document is read).
\<close>

definition locs :: "env \<Rightarrow> string \<Rightarrow> string list" where
  "locs env url =
     (case retrieve_web_data env url of
        Inl e \<Rightarrow> []
      | Inr sitemap_xml \<Rightarrow> find_all_loc env sitemap_xml)"

text \<open>
  \<open>sitemaps_frames\<close> is a \<open>dict\<close>: the list of its items in insertion order, with one item
  per key. \<open>dict_set k v d\<close> is \<open>d[k] = v\<close>: the value of an existing key is replaced where
  it stands, a new key is appended.
\<close>

fun dict_set :: "'k \<Rightarrow> 'v \<Rightarrow> ('k \<times> 'v) list \<Rightarrow> ('k \<times> 'v) list" where
  "dict_set k v [] = [(k, v)]"
| "dict_set k v ((k', v') # d) =
     (if k' = k then (k, v) # d else (k', v') # dict_set k v d)"

text \<open>
  The state of a \<open>WebSitemapScraper\<close>. The field \<open>trace\<close> is not in the source: it records
  the order in which statements of \<open>process_sitemap\<close> run, so that claims about that order
  can be stated. \<open>Visit url\<close> is logged when \<open>process_sitemap(url)\<close> starts (line 58),
  \<open>Append url link\<close> at \<open>links.append\<close> in the call for \<open>url\<close> (line 63), and
  \<open>Store identifier\<close> at the assignment to \<open>sitemaps_frames\<close> (line 69).
\<close>

datatype event = Visit string | Append string string | Store string

record scraper =
  base_url :: string
  sitemaps_frames :: "(string \<times> data_frame) list"
  trace :: "event list"

definition emit :: "event \<Rightarrow> scraper \<Rightarrow> scraper" where
  "emit e s = s\<lparr>trace := trace s @ [e]\<rparr>"

text \<open>\<open>url_of_sitemap.split("/")[-1]\<close>; \<open>split\<close> never returns the empty list.\<close>

definition identifier_of :: "string \<Rightarrow> string" where
  "identifier_of url_of_sitemap = last (str_split url_of_sitemap ''/'')"

subsection \<open>\<open>process_sitemap\<close>\<close>

text \<open>
  \<open>process_sitemap\<close> calls itself for every \<open>loc\<close> entry that ends in \<open>.xml\<close>, and nothing
  bounds how deep these calls nest. The model takes a bound \<open>depth\<close> on the nesting, as
  the interpreter's recursion limit is one: the result is \<open>None\<close> when the calls would nest
  deeper than \<open>depth\<close>, \<open>Some (Inl e)\<close> when the exception \<open>e\<close> is raised, and
  \<open>Some (Inr s)\<close> when the call returns with the scraper in state \<open>s\<close>. A call that returns
  for no bound at all does not terminate.

  \<open>visit_locs\<close> is the loop over the \<open>loc\<close> entries (lines 62 to 65) in the call for
  \<open>url_of_sitemap\<close>, with the list \<open>links\<close> built so far.
\<close>

fun process_sitemap :: "nat \<Rightarrow> env \<Rightarrow> string \<Rightarrow> scraper \<Rightarrow> (error + scraper) option"
  and visit_locs ::
    "nat \<Rightarrow> env \<Rightarrow> string \<Rightarrow> string list \<Rightarrow> string list \<Rightarrow> scraper
       \<Rightarrow> (error + string list \<times> scraper) option"
where
  "process_sitemap 0 env url_of_sitemap s = None"
| "process_sitemap (Suc depth) env url_of_sitemap s =
     (case retrieve_web_data env url_of_sitemap of
        Inl e \<Rightarrow> Some (Inl e)
      | Inr sitemap_xml \<Rightarrow>
          (let parser = find_all_loc env sitemap_xml
           in case visit_locs depth env url_of_sitemap parser []
                     (emit (Visit url_of_sitemap) s) of
                None \<Rightarrow> None
              | Some (Inl e) \<Rightarrow> Some (Inl e)
              | Some (Inr (links, s')) \<Rightarrow>
                  (let identifier = identifier_of url_of_sitemap;
                       dataframe = DataFrame links
                   in case process_links dataframe of
                        Inl e \<Rightarrow> Some (Inl e)
                      | Inr dataframe' \<Rightarrow>
                          Some (Inr (emit (Store identifier)
                            (s'\<lparr>sitemaps_frames :=
                                  dict_set identifier dataframe' (sitemaps_frames s')\<rparr>))))))"
| "visit_locs depth env url_of_sitemap [] links s = Some (Inr (links, s))"
| "visit_locs depth env url_of_sitemap (location # rest) links s =
     (let links' = links @ [location];
          s' = emit (Append url_of_sitemap location) s
      in if str_endswith location ''.xml''
         then (case process_sitemap depth env location s' of
                 None \<Rightarrow> None
               | Some (Inl e) \<Rightarrow> Some (Inl e)
               | Some (Inr s'') \<Rightarrow> visit_locs depth env url_of_sitemap rest links' s'')
         else visit_locs depth env url_of_sitemap rest links' s')"

subsection \<open>\<open>collect_sitemaps\<close> and the constructor\<close>

text \<open>The loop of \<open>collect_sitemaps\<close> over the lines of \<open>robots.txt\<close>.\<close>

fun collect_lines :: "nat \<Rightarrow> env \<Rightarrow> string list \<Rightarrow> scraper \<Rightarrow> (error + scraper) option" where
  "collect_lines depth env [] s = Some (Inr s)"
| "collect_lines depth env (line # rest) s =
     (if str_startswith line ''Sitemap:''
      then (case list_item (str_split line '': '') 1 of
              Inl e \<Rightarrow> Some (Inl e)
            | Inr piece \<Rightarrow>
                (let sitemap_link = str_strip piece whitespace
                 in case process_sitemap depth env sitemap_link s of
                      None \<Rightarrow> None
                    | Some (Inl e) \<Rightarrow> Some (Inl e)
                    | Some (Inr s') \<Rightarrow> collect_lines depth env rest s'))
      else collect_lines depth env rest s)"

definition collect_sitemaps :: "nat \<Rightarrow> env \<Rightarrow> scraper \<Rightarrow> (error + scraper) option" where
  "collect_sitemaps depth env s =
     (case retrieve_web_data env (base_url s @ ''/robots.txt'') of
        Inl e \<Rightarrow> Some (Inl e)
      | Inr robots_content \<Rightarrow> collect_lines depth env (str_split robots_content [CHR 0x0A]) s)"

text \<open>\<open>WebSitemapScraper(base_url)\<close>.\<close>

definition init_scraper :: "nat \<Rightarrow> env \<Rightarrow> string \<Rightarrow> (error + scraper) option" where
  "init_scraper depth env url =
     collect_sitemaps depth env \<lparr>base_url = url, sitemaps_frames = [], trace = []\<rparr>"

text \<open>
  The graph of nested sitemaps: \<open>(child, parent)\<close> is an edge when \<open>child\<close> is a \<open>loc\<close> entry
  of the document at \<open>parent\<close> and ends in \<open>.xml\<close>.
\<close>

definition xml_refs :: "env \<Rightarrow> (string \<times> string) set" where
  "xml_refs env = {(child, parent). child \<in> set (locs env parent) \<and> str_endswith child ''.xml''}"

subsection \<open>Order of events\<close>



subsection \<open>Example webs\<close>

text \<open>
  Five small webs on which the theorems are instantiated. The XML documents are named
  by short texts; \<open>find_all_loc\<close> gives their \<open>loc\<close> entries.
  \<^item> \<open>example_env\<close>: \<open>robots.txt\<close> declares an index, which lists a sitemap, a sitemap
    that is answered with status 404, and a page; the sitemap lists one page.
  \<^item> \<open>cyclic_env\<close>: two sitemaps that list each other.
  \<^item> \<open>collision_env\<close>: two sitemaps with the same last path segment.
  \<^item> \<open>robots_no_space_env\<close>: a \<open>robots.txt\<close> whose \<open>Sitemap:\<close> line has no space behind
    the colon.
  \<^item> \<open>irregular_env\<close>: a sitemap that is answered with status 300 and a document that
    lists one page, and a sitemap whose request raises \<open>LocationParseError\<close>.
\<close>

definition example_env :: env where
  "example_env =
     \<lparr>requests_get = (\<lambda>endpoint.
        if endpoint = ''https://www.datacamp.com/robots.txt''
        then Response 200 (''User-agent: *'' @ [CHR 0x0A] @
               ''Sitemap: https://www.datacamp.com/sitemap_index.xml'')
        else if endpoint = ''https://www.datacamp.com/sitemap_index.xml'' then Response 200 ''index''
        else if endpoint = ''https://www.datacamp.com/sitemap1.xml'' then Response 200 ''one''
        else if endpoint = ''https://www.datacamp.com/missing.xml''
        then Response 404 ''Not Found''
        else RequestException),
      find_all_loc = (\<lambda>xml.
        if xml = ''index''
        then [''https://www.datacamp.com/sitemap1.xml'', ''https://www.datacamp.com/missing.xml'',
              ''https://www.datacamp.com/page-a'']
        else if xml = ''one'' then [''https://www.datacamp.com/blog/post'']
        else [])\<rparr>"

definition cyclic_env :: env where
  "cyclic_env =
     \<lparr>requests_get = (\<lambda>endpoint.
        if endpoint = ''https://www.datacamp.com/a.xml'' then Response 200 ''a''
        else if endpoint = ''https://www.datacamp.com/b.xml'' then Response 200 ''b''
        else RequestException),
      find_all_loc = (\<lambda>xml.
        if xml = ''a'' then [''https://www.datacamp.com/b.xml'']
        else if xml = ''b'' then [''https://www.datacamp.com/a.xml'']
        else [])\<rparr>"

definition collision_env :: env where
  "collision_env =
     \<lparr>requests_get = (\<lambda>endpoint.
        if endpoint = ''https://www.datacamp.com/a/sitemap.xml'' then Response 200 ''a''
        else if endpoint = ''https://www.datacamp.com/b/sitemap.xml'' then Response 200 ''b''
        else RequestException),
      find_all_loc = (\<lambda>xml.
        if xml = ''a'' then [''https://www.datacamp.com/a/page'']
        else if xml = ''b'' then [''https://www.datacamp.com/b/x/y'']
        else [])\<rparr>"

definition robots_no_space_env :: env where
  "robots_no_space_env =
     \<lparr>requests_get = (\<lambda>endpoint.
        if endpoint = ''https://www.datacamp.com/robots.txt''
        then Response 200 ''Sitemap:https://www.datacamp.com/sitemap.xml''
        else RequestException),
      find_all_loc = (\<lambda>xml. [])\<rparr>"

definition irregular_env :: env where
  "irregular_env =
     \<lparr>requests_get = (\<lambda>endpoint.
        if endpoint = ''https://www.datacamp.com/moved.xml'' then Response 300 ''choices''
        else if endpoint = ''https://www.datacamp.com/bad.xml'' then Uncaught LocationParseError
        else RequestException),
      find_all_loc = (\<lambda>xml.
        if xml = ''choices'' then [''https://www.datacamp.com/page-b'']
        else [])\<rparr>"

definition fresh_scraper :: scraper where
  "fresh_scraper = \<lparr>base_url = ''https://www.datacamp.com'', sitemaps_frames = [], trace = []\<rparr>"

text \<open>
  The states these webs lead to: \<open>example_result\<close> after \<open>process_sitemap\<close> for the index
  of \<open>example_env\<close>, \<open>collision_first\<close> after the first sitemap of \<open>collision_env\<close> and
  \<open>collision_second\<close> after the second one, \<open>moved_result\<close> after the sitemap of
  \<open>irregular_env\<close> that is answered with status 300, each from \<open>fresh_scraper\<close> on.
\<close>

definition example_result :: scraper where
  "example_result =
     \<lparr>base_url = ''https://www.datacamp.com'',
      sitemaps_frames =
        [(''sitemap1.xml'',
          \<lparr>n_rows = 1,
           cols = [(''Links'', [Some ''https://www.datacamp.com/blog/post'']),
                   (''subdir1'', [Some ''blog'']), (''subdir2'', [Some ''post''])]\<rparr>),
         (''missing.xml'', \<lparr>n_rows = 0, cols = [(''Links'', [])]\<rparr>),
         (''sitemap_index.xml'',
          \<lparr>n_rows = 3,
           cols = [(''Links'',
                    [Some ''https://www.datacamp.com/sitemap1.xml'',
                     Some ''https://www.datacamp.com/missing.xml'',
                     Some ''https://www.datacamp.com/page-a'']),
                   (''subdir1'',
                    [Some ''sitemap1.xml'', Some ''missing.xml'', Some ''page-a''])]\<rparr>)],
      trace =
        [Visit ''https://www.datacamp.com/sitemap_index.xml'',
         Append ''https://www.datacamp.com/sitemap_index.xml''
           ''https://www.datacamp.com/sitemap1.xml'',
         Visit ''https://www.datacamp.com/sitemap1.xml'',
         Append ''https://www.datacamp.com/sitemap1.xml'' ''https://www.datacamp.com/blog/post'',
         Store ''sitemap1.xml'',
         Append ''https://www.datacamp.com/sitemap_index.xml''
           ''https://www.datacamp.com/missing.xml'',
         Visit ''https://www.datacamp.com/missing.xml'',
         Store ''missing.xml'',
         Append ''https://www.datacamp.com/sitemap_index.xml'' ''https://www.datacamp.com/page-a'',
         Store ''sitemap_index.xml'']\<rparr>"

definition collision_first :: scraper where
  "collision_first =
     \<lparr>base_url = ''https://www.datacamp.com'',
      sitemaps_frames =
        [(''sitemap.xml'',
          \<lparr>n_rows = 1,
           cols = [(''Links'', [Some ''https://www.datacamp.com/a/page'']),
                   (''subdir1'', [Some ''a'']), (''subdir2'', [Some ''page''])]\<rparr>)],
      trace =
        [Visit ''https://www.datacamp.com/a/sitemap.xml'',
         Append ''https://www.datacamp.com/a/sitemap.xml'' ''https://www.datacamp.com/a/page'',
         Store ''sitemap.xml'']\<rparr>"

definition collision_second :: scraper where
  "collision_second =
     \<lparr>base_url = ''https://www.datacamp.com'',
      sitemaps_frames =
        [(''sitemap.xml'',
          \<lparr>n_rows = 1,
           cols = [(''Links'', [Some ''https://www.datacamp.com/b/x/y'']),
                   (''subdir1'', [Some ''b'']), (''subdir2'', [Some ''x'']),
                   (''subdir3'', [Some ''y''])]\<rparr>)],
      trace =
        [Visit ''https://www.datacamp.com/a/sitemap.xml'',
         Append ''https://www.datacamp.com/a/sitemap.xml'' ''https://www.datacamp.com/a/page'',
         Store ''sitemap.xml'',
         Visit ''https://www.datacamp.com/b/sitemap.xml'',
         Append ''https://www.datacamp.com/b/sitemap.xml'' ''https://www.datacamp.com/b/x/y'',
         Store ''sitemap.xml'']\<rparr>"

definition moved_result :: scraper where
  "moved_result =
     \<lparr>base_url = ''https://www.datacamp.com'',
      sitemaps_frames =
        [(''moved.xml'',
          \<lparr>n_rows = 1,
           cols = [(''Links'', [Some ''https://www.datacamp.com/page-b'']),
                   (''subdir1'', [Some ''page-b''])]\<rparr>)],
      trace =
        [Visit ''https://www.datacamp.com/moved.xml'',
         Append ''https://www.datacamp.com/moved.xml'' ''https://www.datacamp.com/page-b'',
         Store ''moved.xml'']\<rparr>"

section \<open>The exporter: \<open>export_to_csv\<close>\<close>

text \<open>
  The file system is the set of the paths that are directories and the content of the
  paths that are files. A directory is in \<open>dirs\<close> under its path without a slash at the
  end; the root \<open>/\<close> and the current directory, which the empty parent of a relative
  name stands for, always exist. Apart from the slashes at the end of a path, paths are
  compared as strings (no \<open>.\<close> or \<open>..\<close> components, no links, no permissions).

  \<^item> \<open>os_path_dirname p\<close> is \<open>os.path.dirname(p)\<close> on POSIX: the part of \<open>p\<close> up to its last
    slash, without the slashes at its end unless it consists of slashes only;
  \<^item> \<open>parent_of path\<close> is the directory in which \<open>path\<close> names an entry;
  \<^item> \<open>os_mkdir\<close> is \<open>os.mkdir\<close>: it raises \<open>FileExistsError\<close> when the path exists,
    \<open>NotADirectoryError\<close> when its parent is a file, \<open>FileNotFoundError\<close> when its parent
    does not exist (or the path is empty), and creates the one directory otherwise.

  A CSV file is the list of its records, each the list of its fields; quoting and line
  ends are the CSV writer's. \<open>to_csv frame\<close> is what \<open>frame.to_csv(path, index=False)\<close>
  writes: the column labels, then one record per row, a null cell as the empty field.
  pandas raises \<open>OSError\<close> when the parent of the file is no directory, and opening a
  directory for writing raises \<open>IsADirectoryError\<close>.
\<close>

record file_system =
  dirs :: "string set"
  files :: "string \<Rightarrow> string list list option"

definition rstrip_slashes :: "string \<Rightarrow> string" where
  "rstrip_slashes path = rev (dropWhile (\<lambda>c. c = CHR ''/'') (rev path))"

definition os_path_dirname :: "string \<Rightarrow> string" where
  "os_path_dirname p =
     (let head = rev (dropWhile (\<lambda>c. c \<noteq> CHR ''/'') (rev p))
      in if head \<noteq> [] \<and> head \<noteq> replicate (length head) (CHR ''/'')
         then rstrip_slashes head else head)"

definition parent_of :: "string \<Rightarrow> string" where
  "parent_of path = os_path_dirname (rstrip_slashes path)"

definition os_path_isdir :: "file_system \<Rightarrow> string \<Rightarrow> bool" where
  "os_path_isdir fs path \<longleftrightarrow>
     path \<noteq> [] \<and> (rstrip_slashes path = [] \<or> rstrip_slashes path \<in> dirs fs)"

definition parent_exists :: "file_system \<Rightarrow> string \<Rightarrow> bool" where
  "parent_exists fs path \<longleftrightarrow> parent_of path = [] \<or> os_path_isdir fs (parent_of path)"

definition os_mkdir :: "string \<Rightarrow> file_system \<Rightarrow> error + file_system" where
  "os_mkdir path fs =
     (if path = [] then Inl FileNotFoundError
      else if os_path_isdir fs path \<or> files fs (rstrip_slashes path) \<noteq> None
      then Inl FileExistsError
      else if parent_exists fs path
      then Inr (fs\<lparr>dirs := insert (rstrip_slashes path) (dirs fs)\<rparr>)
      else if files fs (parent_of path) \<noteq> None then Inl NotADirectoryError
      else Inl FileNotFoundError)"

text \<open>\<open>os.path.join(a, b)\<close> on POSIX.\<close>

definition os_path_join :: "string \<Rightarrow> string \<Rightarrow> string" where
  "os_path_join a b =
     (if str_startswith b ''/'' then b
      else if a = [] \<or> str_endswith a ''/'' then a @ b
      else a @ ''/'' @ b)"

definition to_csv :: "data_frame \<Rightarrow> string list list" where
  "to_csv frame =
     columns frame #
     map (\<lambda>i. map (\<lambda>(c, vs). case vs ! i of None \<Rightarrow> '''' | Some v \<Rightarrow> v) (cols frame))
       [0..<n_rows frame]"

definition write_csv :: "string \<Rightarrow> data_frame \<Rightarrow> file_system \<Rightarrow> error + file_system" where
  "write_csv file_path frame fs =
     (if \<not> parent_exists fs file_path then Inl OSError
      else if os_path_isdir fs file_path then Inl IsADirectoryError
      else Inr (fs\<lparr>files := (files fs)(file_path \<mapsto> to_csv frame)\<rparr>))"

text \<open>The loop of \<open>export_to_csv\<close> over the items of \<open>sitemaps_frames\<close>.\<close>

fun export_frames :: "string \<Rightarrow> (string \<times> data_frame) list \<Rightarrow> file_system \<Rightarrow> error + file_system"
where
  "export_frames folder [] fs = Inr fs"
| "export_frames folder ((map_url, frame) # rest) fs =
     (let file_name = map_url @ ''.csv'';
          file_path = os_path_join folder file_name
      in case write_csv file_path frame fs of
           Inl e \<Rightarrow> Inl e
         | Inr fs' \<Rightarrow> export_frames folder rest fs')"

definition export_to_csv :: "scraper \<Rightarrow> string \<Rightarrow> file_system \<Rightarrow> error + file_system" where
  "export_to_csv s folder fs =
     (case (if \<not> os_path_isdir fs folder then os_mkdir folder fs else Inr fs) of
        Inl e \<Rightarrow> Inl e
      | Inr fs' \<Rightarrow> export_frames folder (sitemaps_frames s) fs')"

section \<open>Properties of the string functions\<close>

lemma str_split_not_Nil: "str_split s sep \<noteq> []"
  by (induction s sep rule: str_split.induct) (subst str_split.simps, simp add: Let_def)

lemma str_join_Cons: "ys \<noteq> [] \<Longrightarrow> str_join sep (x # ys) = x @ sep @ str_join sep ys"
  by (cases ys) simp_all

lemma str_join_Cons_hd: "ys \<noteq> [] \<Longrightarrow> str_join sep ((c # hd ys) # tl ys) = c # str_join sep ys"
  by (cases ys, simp, rename_tac y ys', case_tac ys', auto)

lemma str_join_split: "str_join sep (str_split s sep) = s"
proof (induction s sep rule: str_split.induct)
  case (1 s sep)
  show ?case
  proof (cases "s = []")
    case True
    then show ?thesis by (subst str_split.simps) simp
  next
    case nonempty: False
    show ?thesis
    proof (cases "sep \<noteq> [] \<and> prefix sep s")
      case True
      then obtain r where r: "s = sep @ r" by (auto simp: prefix_def)
      have "str_join sep (str_split s sep) = sep @ str_join sep (str_split (drop (length sep) s) sep)"
        using True nonempty by (subst str_split.simps) (simp add: str_join_Cons str_split_not_Nil)
      also have "\<dots> = sep @ drop (length sep) s"
        using 1(1)[OF nonempty True] by simp
      finally show ?thesis using r by simp
    next
      case False
      have "str_join sep (str_split s sep) = hd s # str_join sep (str_split (tl s) sep)"
        using False nonempty
        by (subst str_split.simps) (auto simp add: Let_def str_join_Cons_hd str_split_not_Nil)
      then show ?thesis using 1(2)[OF nonempty False] nonempty by simp
    qed
  qed
qed

lemma str_split_no_sep: "seg \<in> set (str_split s [c]) \<Longrightarrow> c \<notin> set seg"
proof (induction s "[c]" arbitrary: seg rule: str_split.induct)
  case (1 s)
  show ?case
  proof (cases "s = []")
    case True
    then show ?thesis using 1(3) by (subst (asm) str_split.simps) simp
  next
    case nonempty: False
    show ?thesis
    proof (cases "prefix [c] s")
      case True
      then have "seg = [] \<or> seg \<in> set (str_split (drop (length [c]) s) [c])"
        using 1(3) nonempty by (subst (asm) str_split.simps) auto
      then show ?thesis using 1(1)[OF nonempty] True by auto
    next
      case False
      let ?r = "str_split (tl s) [c]"
      have ne: "?r \<noteq> []" by (rule str_split_not_Nil)
      have "seg = hd s # hd ?r \<or> seg \<in> set (tl ?r)"
        using 1(3) nonempty False by (subst (asm) str_split.simps) (auto simp: Let_def)
      moreover have "hd s \<noteq> c" using False nonempty by (cases s) auto
      moreover have "hd ?r \<in> set ?r" using ne by simp
      moreover have "set (tl ?r) \<subseteq> set ?r" using ne by (cases ?r) auto
      ultimately show ?thesis using 1(2)[OF nonempty] False by auto
    qed
  qed
qed

lemma str_join_suffix_last: "segs \<noteq> [] \<Longrightarrow> suffix (last segs) (str_join sep segs)"
proof (induction sep segs rule: str_join.induct)
  case (3 sep x y ys)
  then have "suffix (last (y # ys)) (str_join sep (y # ys))" by simp
  then have "suffix (last (y # ys)) (x @ sep @ str_join sep (y # ys))"
    by (metis suffix_appendI)
  then show ?case by simp
qed simp_all

lemma str_strip_decomp:
  "\<exists>a b. s = a @ str_strip s chars @ b \<and> set a \<subseteq> set chars \<and> set b \<subseteq> set chars"
proof -
  let ?P = "\<lambda>c. c \<in> set chars"
  let ?m = "dropWhile ?P s"
  have 1: "s = takeWhile ?P s @ ?m" by simp
  have "?m = rev (rev ?m)" by simp
  also have "\<dots> = rev (takeWhile ?P (rev ?m) @ dropWhile ?P (rev ?m))"
    by (simp only: takeWhile_dropWhile_id)
  finally have 3: "?m = str_strip s chars @ rev (takeWhile ?P (rev ?m))"
    by (simp only: rev_append str_strip_def)
  have "s = takeWhile ?P s @ str_strip s chars @ rev (takeWhile ?P (rev ?m))"
    using 1 3 by metis
  moreover have "set (takeWhile ?P s) \<subseteq> set chars" by (auto dest: set_takeWhileD)
  moreover have "set (rev (takeWhile ?P (rev ?m))) \<subseteq> set chars" by (auto dest: set_takeWhileD)
  ultimately show ?thesis by blast
qed

lemma str_strip_ends:
  assumes ne: "str_strip s chars \<noteq> []"
  shows "hd (str_strip s chars) \<notin> set chars \<and> last (str_strip s chars) \<notin> set chars"
proof -
  let ?P = "\<lambda>c. c \<in> set chars"
  let ?m = "dropWhile ?P s"
  let ?d = "dropWhile ?P (rev ?m)"
  have d: "?d \<noteq> []" using ne by (simp add: str_strip_def)
  then have "\<not> ?P (hd ?d)" by (rule hd_dropWhile)
  then have l: "last (str_strip s chars) \<notin> set chars"
    using d by (simp add: str_strip_def last_rev)
  have "\<And>m. dropWhile ?P (rev m) \<noteq> [] \<Longrightarrow> m \<noteq> []" by auto
  from this[OF d] have m: "?m \<noteq> []" .
  then have hm: "\<not> ?P (hd ?m)" by (rule hd_dropWhile)
  obtain b where "?m = str_strip s chars @ b"
    using takeWhile_dropWhile_id[of ?P "rev ?m"]
    by (metis rev_append rev_rev_ident str_strip_def)
  then have "hd ?m = hd (str_strip s chars)" using ne by (metis hd_append2)
  then show ?thesis using hm l by simp
qed

lemma str_strip_no_slash_ends:
  "\<not> prefix ''/'' (str_strip s ''/'') \<and> \<not> suffix ''/'' (str_strip s ''/'')"
proof (cases "str_strip s ''/'' = []")
  case True
  then show ?thesis by simp
next
  case False
  from str_strip_ends[OF False]
  have h: "hd (str_strip s ''/'') \<noteq> CHR ''/''" and l: "last (str_strip s ''/'') \<noteq> CHR ''/''"
    by simp_all
  have "\<not> prefix ''/'' (str_strip s ''/'')"
    using h by (auto simp: prefix_def)
  moreover have "\<not> suffix ''/'' (str_strip s ''/'')"
    using l by (auto simp: suffix_def)
  ultimately show ?thesis by simp
qed

lemma str_of_nat_not_Nil: "str_of_nat n \<noteq> []"
  by (subst str_of_nat.simps) simp

lemma digit_inj: "a < 10 \<Longrightarrow> b < 10 \<Longrightarrow> (char_of (48 + a) :: char) = char_of (48 + b) \<Longrightarrow> a = (b::nat)"
proof -
  assume a: "a < 10" and b: "b < 10" and e: "(char_of (48 + a) :: char) = char_of (48 + b)"
  have "of_char (char_of (48 + a) :: char) = (of_char (char_of (48 + b) :: char) :: nat)"
    using e by simp
  then have "(48 + a) mod 256 = (48 + b) mod 256" by (simp only: of_char_of)
  then show "a = b" using a b by simp
qed

lemma str_of_nat_inj: "str_of_nat m = str_of_nat n \<Longrightarrow> m = n"
proof (induction m arbitrary: n rule: str_of_nat.induct)
  case (1 m)
  show ?case
  proof (cases "m < 10")
    case small: True
    show ?thesis
    proof (cases "n < 10")
      case True
      with small 1(2) show ?thesis
        by (simp add: str_of_nat.simps[of m] str_of_nat.simps[of n] digit_inj)
    next
      case False
      with small 1(2) str_of_nat_not_Nil[of "n div 10"] show ?thesis
        by (simp add: str_of_nat.simps[of m] str_of_nat.simps[of n])
    qed
  next
    case big: False
    show ?thesis
    proof (cases "n < 10")
      case True
      with big 1(2) str_of_nat_not_Nil[of "m div 10"] show ?thesis
        by (simp add: str_of_nat.simps[of m] str_of_nat.simps[of n])
    next
      case False
      with big 1(2) have e: "str_of_nat (m div 10) = str_of_nat (n div 10)"
        and d: "(char_of (48 + m mod 10) :: char) = char_of (48 + n mod 10)"
        by (simp_all add: str_of_nat.simps[of m] str_of_nat.simps[of n])
      from 1(1)[OF big e] have q: "m div 10 = n div 10" .
      have r: "m mod 10 = n mod 10" by (rule digit_inj[OF _ _ d]) simp_all
      show ?thesis using q r by (metis div_mult_mod_eq)
    qed
  qed
qed

lemma subdir_inj [simp]: "subdir j = subdir k \<longleftrightarrow> j = k"
  by (auto simp: subdir_def dest: str_of_nat_inj)

lemma subdir_not_Links [simp]: "subdir j \<noteq> ''Links''" "''Links'' \<noteq> subdir j"
  by (simp_all add: subdir_def)

lemma subdir_0: "subdir 0 = ''subdir1''"
  by code_simp

lemma subdir_small:
  "subdir (Suc 0) = ''subdir2''" "subdir 2 = ''subdir3''" "subdir 3 = ''subdir4''"
  by code_simp+

section \<open>Properties of \<open>split_url\<close>\<close>

lemma split_url_length: "1 \<le> length (split_url p u)"
  using str_split_not_Nil[of "str_strip (drop (length p) u) ''/''" "''/''"]
  by (cases "str_split (str_strip (drop (length p) u) ''/'') ''/''") (simp_all add: split_url_def)

text \<open>
  Claim C1. For every link \<open>u\<close> and prefix \<open>p\<close>: when \<open>u\<close> starts with \<open>p\<close>, \<open>split_url\<close>
  returns \<open>u\<close> without \<open>p\<close>, stripped of its leading and trailing \<open>/\<close> and split at \<open>/\<close>.
  That list is never empty, its pieces hold no \<open>/\<close>, and joined by \<open>/\<close> they are the part
  of \<open>u\<close> behind \<open>p\<close> up to slashes at both ends. When \<open>u\<close> is \<open>p\<close> itself the result is the
  one empty string; when \<open>u\<close> does not start with \<open>p\<close> it is the one null.
\<close>

theorem split_url_segments:
  "(str_startswith u p \<longrightarrow>
      split_url p u = map Some (str_split (str_strip (drop (length p) u) ''/'') ''/'') \<and>
      (\<exists>a b segs.
         split_url p u = map Some segs \<and> segs \<noteq> [] \<and>
         u = p @ a @ str_join ''/'' segs @ b \<and>
         set a \<subseteq> {CHR ''/''} \<and> set b \<subseteq> {CHR ''/''} \<and>
         \<not> prefix ''/'' (str_join ''/'' segs) \<and> \<not> suffix ''/'' (str_join ''/'' segs) \<and>
         (\<forall>seg \<in> set segs. CHR ''/'' \<notin> set seg)))
   \<and> (u = p \<longrightarrow> split_url p u = [Some ''''])
   \<and> (\<not> str_startswith u p \<longrightarrow> split_url p u = [None])"
proof (intro conjI impI)
  assume sw: "str_startswith u p"
  let ?rest = "drop (length p) u"
  let ?core = "str_strip ?rest ''/''"
  let ?segs = "str_split ?core ''/''"
  show eq: "split_url p u = map Some ?segs"
    using sw by (simp add: split_url_def)
  from sw have u: "u = p @ ?rest"
    by (auto simp: str_startswith_def prefix_def)
  obtain a b where ab: "?rest = a @ ?core @ b" "set a \<subseteq> set ''/''" "set b \<subseteq> set ''/''"
    using str_strip_decomp[of ?rest "''/''"] by blast
  have j: "str_join ''/'' ?segs = ?core" by (rule str_join_split)
  have "u = p @ a @ str_join ''/'' ?segs @ b"
    using u ab(1) j by metis
  moreover have "\<not> prefix ''/'' (str_join ''/'' ?segs) \<and> \<not> suffix ''/'' (str_join ''/'' ?segs)"
    unfolding j by (rule str_strip_no_slash_ends)
  moreover have "\<forall>seg \<in> set ?segs. CHR ''/'' \<notin> set seg"
    using str_split_no_sep by blast
  moreover have "?segs \<noteq> []" by (rule str_split_not_Nil)
  ultimately show "\<exists>a b segs.
         split_url p u = map Some segs \<and> segs \<noteq> [] \<and>
         u = p @ a @ str_join ''/'' segs @ b \<and>
         set a \<subseteq> {CHR ''/''} \<and> set b \<subseteq> {CHR ''/''} \<and>
         \<not> prefix ''/'' (str_join ''/'' segs) \<and> \<not> suffix ''/'' (str_join ''/'' segs) \<and>
         (\<forall>seg \<in> set segs. CHR ''/'' \<notin> set seg)"
    using eq ab(2,3) by (intro exI[of _ a] exI[of _ b] exI[of _ ?segs]) simp
next
  assume "u = p"
  then show "split_url p u = [Some '''']"
    by (simp add: split_url_def str_startswith_def str_strip_def str_split.simps)
next
  assume "\<not> str_startswith u p"
  then show "split_url p u = [None]" by (simp add: split_url_def)
qed

theorem split_url_segments_witness:
  "str_startswith ''https://www.datacamp.com/blog/2024/post/'' url_prefix
   \<and> split_url url_prefix ''https://www.datacamp.com/blog/2024/post/''
       = map Some (str_split (str_strip (drop (length url_prefix)
           ''https://www.datacamp.com/blog/2024/post/'') ''/'') ''/'')
   \<and> split_url url_prefix ''https://www.datacamp.com/blog/2024/post/''
       = [Some ''blog'', Some ''2024'', Some ''post'']
   \<and> split_url url_prefix url_prefix = [Some '''']
   \<and> \<not> str_startswith ''https://example.com/a/b'' url_prefix
   \<and> split_url url_prefix ''https://example.com/a/b'' = [None]"
proof -
  have 1: "str_startswith ''https://www.datacamp.com/blog/2024/post/'' url_prefix"
    by (simp add: str_startswith_def url_prefix_def)
  have 2: "\<not> str_startswith ''https://example.com/a/b'' url_prefix"
    by (simp add: str_startswith_def url_prefix_def)
  have 3: "str_split (str_strip (drop (length url_prefix)
           ''https://www.datacamp.com/blog/2024/post/'') ''/'') ''/'' = [''blog'', ''2024'', ''post'']"
    by (simp add: url_prefix_def str_strip_def str_split.simps)
  show ?thesis
    using 1 2 3 split_url_segments[of "''https://www.datacamp.com/blog/2024/post/''" url_prefix]
      split_url_segments[of url_prefix url_prefix]
      split_url_segments[of "''https://example.com/a/b''" url_prefix]
    by simp
qed

section \<open>\<open>process_links\<close> on a list of links\<close>

lemma grid_cong:
  "(\<And>i j. i < length links \<Longrightarrow> j < M \<Longrightarrow> f i j = g i j) \<Longrightarrow> grid links f M = grid links g M"
  by (simp add: grid_def)

lemma DataFrame_grid: "DataFrame links = grid links f 0"
  by (simp add: DataFrame_def grid_def)

lemma columns_grid: "columns (grid links f M) = ''Links'' # map subdir [0..<M]"
  by (simp add: columns_def grid_def comp_def)

lemma n_rows_grid [simp]: "n_rows (grid links f M) = length links"
  by (simp add: grid_def)

lemma subdir_in_columns_grid: "subdir k \<in> set (columns (grid links f M)) \<longleftrightarrow> k < M"
  by (auto simp: columns_grid)

lemma add_column_grid:
  assumes "\<And>i. i < length links \<Longrightarrow> f i M = None"
  shows "add_column (subdir M) (grid links f M) = grid links f (Suc M)"
proof -
  have "map (\<lambda>i. f i M) [0..<length links] = replicate (length links) None"
    using assms by (intro nth_equalityI) simp_all
  then show ?thesis by (simp add: add_column_def grid_def)
qed

lemma ensure_columns_grid:
  assumes "\<And>i j. i < length links \<Longrightarrow> M \<le> j \<Longrightarrow> f i j = None"
  shows "ensure_columns (map subdir [0..<k]) (grid links f M) = grid links f (max M k)"
proof (induction k)
  case 0
  then show ?case by (simp add: ensure_columns_def)
next
  case (Suc k)
  have step: "ensure_columns (map subdir [0..<Suc k]) (grid links f M) =
      (let d = ensure_columns (map subdir [0..<k]) (grid links f M)
       in if subdir k \<in> set (columns d) then d else add_column (subdir k) d)"
    by (simp add: ensure_columns_def)
  show ?case
  proof (cases "k < M")
    case True
    then have m: "max M k = M" "max M (Suc k) = M" by simp_all
    show ?thesis
      unfolding step Suc.IH m using True by (simp add: subdir_in_columns_grid)
  next
    case False
    then have m: "max M k = k" "max M (Suc k) = Suc k" by simp_all
    have "add_column (subdir k) (grid links f k) = grid links f (Suc k)"
      using assms False by (intro add_column_grid) simp
    then show ?thesis
      unfolding step Suc.IH m by (simp add: subdir_in_columns_grid)
  qed
qed

lemma set_cell_grid:
  "set_cell idx (subdir k) v (grid links f M) =
     grid links (\<lambda>i j. if i = idx \<and> j = k then v else f i j) M"
proof -
  have "\<And>j. (map (\<lambda>i. f i j) [0..<length links])[idx := v] =
      map (\<lambda>i. if i = idx then v else f i j) [0..<length links]"
    by (intro nth_equalityI) (simp_all add: nth_list_update)
  then show ?thesis
    by (simp add: set_cell_def grid_def comp_def cong: if_cong)
qed

lemma zip_snoc:
  "length xs < length ys \<Longrightarrow> zip (xs @ [x]) ys = zip xs ys @ [(x, ys ! length xs)]"
proof (induction xs arbitrary: ys)
  case Nil
  then show ?case by (cases ys) simp_all
next
  case (Cons a xs)
  then show ?case by (cases ys) simp_all
qed

lemma set_cells_grid:
  "k \<le> length vals \<Longrightarrow>
   fold (\<lambda>(c, v). set_cell idx c v) (zip (map subdir [0..<k]) vals) (grid links f M) =
     grid links (\<lambda>i j. if i = idx \<and> j < k then vals ! j else f i j) M"
proof (induction k)
  case 0
  then show ?case by simp
next
  case (Suc k)
  then have k: "k < length vals" by simp
  have z: "zip (map subdir [0..<Suc k]) vals = zip (map subdir [0..<k]) vals @ [(subdir k, vals ! k)]"
    using k zip_snoc[of "map subdir [0..<k]" vals "subdir k"] by simp
  show ?case
    unfolding z using Suc.IH k
    by (simp add: set_cell_grid less_Suc_eq cong: if_cong) (rule grid_cong, auto)
qed

lemma loc_set_grid:
  assumes "\<And>i j. i < length links \<Longrightarrow> M \<le> j \<Longrightarrow> f i j = None"
  shows "loc_set idx (map subdir [0..<length vals]) vals (grid links f M) =
     grid links (\<lambda>i j. if i = idx \<and> j < length vals then vals ! j else f i j)
       (max M (length vals))"
proof -
  have "ensure_columns (map subdir [0..<length vals]) (grid links f M)
      = grid links f (max M (length vals))"
    using assms by (rule ensure_columns_grid)
  then show ?thesis by (simp add: loc_set_def set_cells_grid)
qed

lemma max_depth_Nil [simp]: "max_depth p [] = 0"
  by (simp add: max_depth_def)

lemma max_depth_snoc:
  "max_depth p (xs @ [x]) = max (max_depth p xs) (length (split_url p x))"
proof -
  let ?S = "insert 0 (set (map (\<lambda>l. length (split_url p l)) xs))"
  have "max_depth p (xs @ [x]) = Max (insert (length (split_url p x)) ?S)"
    by (simp add: max_depth_def insert_commute)
  also have "\<dots> = max (length (split_url p x)) (Max ?S)"
    by (rule Max_insert) simp_all
  finally show ?thesis by (simp add: max_depth_def max.commute)
qed

lemma max_depth_ge: "l \<in> set links \<Longrightarrow> length (split_url p l) \<le> max_depth p links"
  by (simp add: max_depth_def)

lemma max_depth_take_Suc:
  "r < length links \<Longrightarrow>
   max_depth p (take (Suc r) links) = max (max_depth p (take r links)) (length (split_url p (links ! r)))"
  by (simp add: take_Suc_conv_app_nth max_depth_snoc)

lemma cell_at_beyond: "length segs \<le> j \<Longrightarrow> cell_at segs j = None"
  by (simp add: cell_at_def)

lemma iterrows_DataFrame:
  "iterrows (DataFrame links) = map (\<lambda>i. (i, [(''Links'', Some (links ! i))])) [0..<length links]"
  by (simp add: iterrows_def DataFrame_def)

lemma process_rows_grid:
  "r \<le> length links \<Longrightarrow>
   process_rows p (map (\<lambda>i. (i, [(''Links'', Some (links ! i))])) [r..<length links])
     (grid links (\<lambda>i j. if i < r then cell_at (split_url p (links ! i)) j else None)
        (max_depth p (take r links)),
      max_depth p (take r links))
   = Inr (grid links (\<lambda>i j. cell_at (split_url p (links ! i)) j) (max_depth p links),
          max_depth p links)"
proof (induction "length links - r" arbitrary: r)
  case 0
  then have "r = length links" by simp
  then show ?case by (auto intro: grid_cong)
next
  case (Suc d)
  then have r: "r < length links" by simp
  let ?segs = "split_url p (links ! r)"
  let ?F = "\<lambda>r i j. if i < r then cell_at (split_url p (links ! i)) j else None"
  let ?M = "max_depth p (take r links)"
  have none: "\<And>i j. i < length links \<Longrightarrow> ?M \<le> j \<Longrightarrow> ?F r i j = None"
  proof -
    fix i j assume i: "i < length links" and j: "?M \<le> j"
    show "?F r i j = None"
    proof (cases "i < r")
      case True
      then have "links ! i \<in> set (take r links)"
        using i by (metis in_set_conv_nth length_take min_less_iff_conj nth_take)
      then have "length (split_url p (links ! i)) \<le> ?M" by (rule max_depth_ge)
      then show ?thesis using True j by (simp add: cell_at_beyond)
    next
      case False
      then show ?thesis by simp
    qed
  qed
  have "loc_set r (map subdir [0..<length ?segs]) ?segs (grid links (?F r) ?M) =
      grid links (\<lambda>i j. if i = r \<and> j < length ?segs then ?segs ! j else ?F r i j)
        (max ?M (length ?segs))"
    using none by (rule loc_set_grid)
  also have "\<dots> = grid links (?F (Suc r)) (max ?M (length ?segs))"
    by (rule grid_cong) (auto simp: cell_at_def less_Suc_eq)
  finally have step: "loc_set r (map subdir [0..<length ?segs]) ?segs (grid links (?F r) ?M) =
      grid links (?F (Suc r)) (max_depth p (take (Suc r) links))"
    using r by (simp add: max_depth_take_Suc)
  have IH: "process_rows p (map (\<lambda>i. (i, [(''Links'', Some (links ! i))])) [Suc r..<length links])
     (grid links (?F (Suc r)) (max_depth p (take (Suc r) links)), max_depth p (take (Suc r) links))
   = Inr (grid links (\<lambda>i j. cell_at (split_url p (links ! i)) j) (max_depth p links),
          max_depth p links)"
    using Suc(2) r by (intro Suc(1)) simp_all
  show ?case
    using r IH step by (simp add: upt_conv_Cons Let_def max_depth_take_Suc)
qed

lemma decompose_grid:
  "decompose p links = grid links (\<lambda>i j. cell_at (split_url p (links ! i)) j) (max_depth p links)"
proof -
  have "\<And>j. map (\<lambda>l. cell_at (split_url p l) j) links =
      map (\<lambda>i. cell_at (split_url p (links ! i)) j) [0..<length links]"
    by (intro nth_equalityI) simp_all
  then show ?thesis by (simp add: decompose_def grid_def)
qed

lemma fill_columns_grid: "k \<le> M \<Longrightarrow> fill_columns k (grid links f M) = grid links f M"
proof (induction k)
  case 0
  then show ?case by (simp add: fill_columns_def)
next
  case (Suc k)
  then have "fill_columns k (grid links f M) = grid links f M" by simp
  then show ?case
    using Suc.prems by (simp add: fill_columns_def subdir_in_columns_grid)
qed

lemma process_links_DataFrame:
  "process_links (DataFrame links) = Inr (decompose url_prefix links)"
proof -
  have "process_rows url_prefix (iterrows (DataFrame links)) (DataFrame links, 0)
      = Inr (decompose url_prefix links, max_depth url_prefix links)"
    unfolding iterrows_DataFrame
    using process_rows_grid[of 0 links url_prefix]
    by (simp add: decompose_grid DataFrame_grid[of links "\<lambda>i j. None"])
  then show ?thesis
    by (simp add: process_links_def decompose_grid fill_columns_grid)
qed

lemma map_of_subdir_columns:
  "map_of (map (\<lambda>j. (subdir j, g j)) js) (subdir k) = (if k \<in> set js then Some (g k) else None)"
  by (induction js) auto

lemma columns_decompose:
  "columns (decompose p links) = ''Links'' # map subdir [0..<max_depth p links]"
  by (simp add: columns_def decompose_def comp_def)

lemma cell_of_decompose_Links:
  "i < length links \<Longrightarrow> cell_of (decompose p links) i ''Links'' = Some (links ! i)"
  by (simp add: cell_of_def decompose_def)

lemma cell_of_decompose_subdir:
  "i < length links \<Longrightarrow> j < max_depth p links \<Longrightarrow>
   cell_of (decompose p links) i (subdir j) = cell_at (split_url p (links ! i)) j"
  by (simp add: cell_of_def decompose_def map_of_subdir_columns)

lemma max_depth_pos: "links \<noteq> [] \<Longrightarrow> 1 \<le> max_depth p links"
proof -
  assume "links \<noteq> []"
  then have "hd links \<in> set links" by simp
  then have "length (split_url p (hd links)) \<le> max_depth p links" by (rule max_depth_ge)
  with split_url_length[of p "hd links"] show ?thesis by simp
qed

text \<open>
  Claim C2. For every list of links the table of \<open>process_links\<close> is rectangular. With \<open>M\<close>
  the maximum number of segments over the links, its columns are \<open>Links\<close>, \<open>subdir1\<close>, ...,
  \<open>subdirM\<close> in this order, every column has one cell per link, and row \<open>i\<close> holds the
  segments of link \<open>i\<close> from \<open>subdir1\<close> on and null in every column beyond its last segment.
\<close>

theorem process_links_rectangular:
  "\<exists>out. process_links (DataFrame links) = Inr out \<and>
     n_rows out = length links \<and>
     columns out = ''Links'' # map subdir [0..<max_depth url_prefix links] \<and>
     (\<forall>(c, vs) \<in> set (cols out). length vs = length links) \<and>
     (\<forall>i < length links.
        cell_of out i ''Links'' = Some (links ! i) \<and>
        (\<forall>j < max_depth url_prefix links.
           cell_of out i (subdir j) =
             (if j < length (split_url url_prefix (links ! i))
              then split_url url_prefix (links ! i) ! j else None)))"
proof (intro exI conjI)
  show "process_links (DataFrame links) = Inr (decompose url_prefix links)"
    by (rule process_links_DataFrame)
  show "n_rows (decompose url_prefix links) = length links"
    by (simp add: decompose_def)
  show "columns (decompose url_prefix links) = ''Links'' # map subdir [0..<max_depth url_prefix links]"
    by (rule columns_decompose)
  show "\<forall>(c, vs) \<in> set (cols (decompose url_prefix links)). length vs = length links"
    by (auto simp: decompose_def)
  show "\<forall>i < length links.
        cell_of (decompose url_prefix links) i ''Links'' = Some (links ! i) \<and>
        (\<forall>j < max_depth url_prefix links.
           cell_of (decompose url_prefix links) i (subdir j) =
             (if j < length (split_url url_prefix (links ! i))
              then split_url url_prefix (links ! i) ! j else None))"
    by (simp add: cell_of_decompose_Links cell_of_decompose_subdir cell_at_def)
qed

lemma example_segments:
  "split_url url_prefix ''https://www.datacamp.com/blog/2024/post'' = [Some ''blog'', Some ''2024'', Some ''post'']"
  "split_url url_prefix ''https://www.datacamp.com/courses/'' = [Some ''courses'']"
  "split_url url_prefix ''https://example.com/page-a'' = [None]"
  by (simp_all add: split_url_def str_startswith_def url_prefix_def str_strip_def str_split.simps)

lemma example_max_depth:
  "max_depth url_prefix [''https://www.datacamp.com/blog/2024/post'',
      ''https://www.datacamp.com/courses/'', ''https://example.com/page-a''] = 3"
  by (simp add: max_depth_def example_segments)

theorem process_links_rectangular_witness:
  "\<exists>out. process_links (DataFrame [''https://www.datacamp.com/blog/2024/post'',
        ''https://www.datacamp.com/courses/'', ''https://example.com/page-a'']) = Inr out \<and>
     n_rows out = 3 \<and>
     columns out = [''Links'', ''subdir1'', ''subdir2'', ''subdir3''] \<and>
     cell_of out 0 ''subdir1'' = Some ''blog'' \<and> cell_of out 0 ''subdir2'' = Some ''2024'' \<and>
     cell_of out 0 ''subdir3'' = Some ''post'' \<and>
     cell_of out 1 ''subdir1'' = Some ''courses'' \<and> cell_of out 1 ''subdir2'' = None \<and>
     cell_of out 1 ''subdir3'' = None \<and>
     cell_of out 2 ''subdir1'' = None \<and> cell_of out 2 ''subdir2'' = None \<and>
     cell_of out 2 ''subdir3'' = None"
proof -
  let ?L = "[''https://www.datacamp.com/blog/2024/post'',
        ''https://www.datacamp.com/courses/'', ''https://example.com/page-a'']"
  from process_links_rectangular[of ?L] obtain out where
    out: "process_links (DataFrame ?L) = Inr out" "n_rows out = length ?L"
      "columns out = ''Links'' # map subdir [0..<max_depth url_prefix ?L]"
    and cells: "\<forall>i < length ?L.
        cell_of out i ''Links'' = Some (?L ! i) \<and>
        (\<forall>j < max_depth url_prefix ?L.
           cell_of out i (subdir j) =
             (if j < length (split_url url_prefix (?L ! i))
              then split_url url_prefix (?L ! i) ! j else None))"
    by blast
  have c: "\<And>i j. i < 3 \<Longrightarrow> j < 3 \<Longrightarrow> cell_of out i (subdir j) =
             (if j < length (split_url url_prefix (?L ! i))
              then split_url url_prefix (?L ! i) ! j else None)"
    using cells by (simp add: example_max_depth)
  have u: "[0..<3] = [0, Suc 0, 2]" by (simp add: upt_rec)
  show ?thesis
    using out c[of 0 0] c[of 0 1] c[of 0 2] c[of 1 0] c[of 1 1] c[of 1 2]
      c[of 2 0] c[of 2 1] c[of 2 2]
    by (intro exI[of _ out])
       (simp add: example_max_depth example_segments subdir_0 subdir_small u)
qed

text \<open>
  Claim C10. \<open>split_url\<close> returns at least one segment for every link and prefix, and the
  table of a list with at least one link has the column \<open>subdir1\<close>.
\<close>

theorem split_url_at_least_one_segment:
  "1 \<le> length (split_url p u) \<and>
   (links \<noteq> [] \<longrightarrow>
      (\<exists>out. process_links (DataFrame links) = Inr out \<and> ''subdir1'' \<in> set (columns out)))"
proof (intro conjI impI)
  show "1 \<le> length (split_url p u)" by (rule split_url_length)
next
  assume "links \<noteq> []"
  then have "0 < max_depth url_prefix links"
    using max_depth_pos[of links url_prefix] by simp
  then have "subdir 0 \<in> set (columns (decompose url_prefix links))"
    by (simp add: columns_decompose)
  then show "\<exists>out. process_links (DataFrame links) = Inr out \<and> ''subdir1'' \<in> set (columns out)"
    by (simp add: process_links_DataFrame subdir_0)
qed

theorem split_url_at_least_one_segment_witness:
  "1 \<le> length (split_url url_prefix ''https://example.com/page-a'') \<and>
   [''https://example.com/page-a''] \<noteq> [] \<and>
   (\<exists>out. process_links (DataFrame [''https://example.com/page-a'']) = Inr out \<and>
      ''subdir1'' \<in> set (columns out))"
  using split_url_at_least_one_segment[of url_prefix "''https://example.com/page-a''"
      "[''https://example.com/page-a'']"]
  by simp

section \<open>\<open>process_links\<close> on any frame\<close>

lemma only_adds_refl: "only_adds_subdirs df df"
  by (simp add: only_adds_subdirs_def)

lemma only_adds_trans:
  "only_adds_subdirs a b \<Longrightarrow> only_adds_subdirs b c \<Longrightarrow> only_adds_subdirs a c"
  unfolding only_adds_subdirs_def by (elim conjE exE) (intro conjI, simp, rule_tac x="new @ newa" in exI, simp, simp)

lemma only_adds_add_column: "only_adds_subdirs df (add_column (subdir k) df)"
  unfolding only_adds_subdirs_def add_column_def columns_def
  by (auto simp: map_add_def split: option.splits)

lemma map_of_update_other:
  "c \<noteq> k \<Longrightarrow>
   map_of (map (\<lambda>(c, vs). if c = k then (c, g vs) else (c, vs)) xs) c = map_of xs c"
  by (induction xs) auto

lemma map_of_set_cell_other:
  "c \<noteq> k \<Longrightarrow> map_of (cols (set_cell idx k v df)) c = map_of (cols df) c"
  by (simp add: set_cell_def map_of_update_other)

lemma only_adds_set_cell: "only_adds_subdirs df (set_cell idx (subdir k) v df)"
proof -
  have "columns (set_cell idx (subdir k) v df) = columns df"
    by (auto simp: set_cell_def columns_def)
  moreover have "n_rows (set_cell idx (subdir k) v df) = n_rows df"
    by (simp add: set_cell_def)
  moreover have "\<And>c. c \<notin> range subdir \<Longrightarrow>
      map_of (cols (set_cell idx (subdir k) v df)) c = map_of (cols df) c"
    by (rule map_of_set_cell_other) auto
  ultimately show ?thesis by (simp add: only_adds_subdirs_def)
qed


lemma only_adds_ensure_columns: "only_adds_subdirs df (ensure_columns (map subdir js) df)"
proof (induction js arbitrary: df)
  case Nil
  then show ?case by (simp add: ensure_columns_def only_adds_refl)
next
  case (Cons j js)
  let ?d = "if subdir j \<in> set (columns df) then df else add_column (subdir j) df"
  have 1: "only_adds_subdirs df ?d"
    by (simp add: only_adds_refl only_adds_add_column)
  have 2: "only_adds_subdirs ?d (ensure_columns (map subdir js) ?d)" by (rule Cons.IH)
  have "ensure_columns (map subdir (j # js)) df = ensure_columns (map subdir js) ?d"
    by (simp add: ensure_columns_def)
  then show ?case using only_adds_trans[OF 1 2] by simp
qed

lemma only_adds_set_cells:
  "only_adds_subdirs df (fold (\<lambda>(c, v). set_cell idx c v) (zip (map subdir js) vals) df)"
proof (induction js arbitrary: df vals)
  case Nil
  then show ?case by (simp add: only_adds_refl)
next
  case (Cons j js)
  show ?case
  proof (cases vals)
    case Nil
    then show ?thesis by (simp add: only_adds_refl)
  next
    case (Cons v vs)
    have 1: "only_adds_subdirs df (set_cell idx (subdir j) v df)" by (rule only_adds_set_cell)
    have 2: "only_adds_subdirs (set_cell idx (subdir j) v df)
        (fold (\<lambda>(c, v). set_cell idx c v) (zip (map subdir js) vs) (set_cell idx (subdir j) v df))"
      by (rule Cons.IH)
    show ?thesis using only_adds_trans[OF 1 2] Cons by simp
  qed
qed

lemma only_adds_loc_set: "only_adds_subdirs df (loc_set idx (map subdir js) vals df)"
  unfolding loc_set_def
  by (rule only_adds_trans[OF only_adds_ensure_columns only_adds_set_cells])

lemma only_adds_fill_columns: "only_adds_subdirs df (fill_columns k df)"
proof (induction k)
  case 0
  then show ?case by (simp add: fill_columns_def only_adds_refl)
next
  case (Suc k)
  let ?d = "fill_columns k df"
  have "fill_columns (Suc k) df =
      (if subdir k \<notin> set (columns ?d) then add_column (subdir k) ?d else ?d)"
    by (simp add: fill_columns_def)
  moreover have "only_adds_subdirs ?d
      (if subdir k \<notin> set (columns ?d) then add_column (subdir k) ?d else ?d)"
    by (simp add: only_adds_refl only_adds_add_column)
  ultimately show ?case using only_adds_trans[OF Suc.IH] by simp
qed

lemma process_rows_only_adds:
  "\<forall>(idx, record) \<in> set rows. \<exists>link. map_of record ''Links'' = Some (Some link) \<Longrightarrow>
   \<exists>df' m'. process_rows p rows (df, m) = Inr (df', m') \<and> only_adds_subdirs df df'"
proof (induction rows arbitrary: df m)
  case Nil
  then show ?case by (simp add: only_adds_refl)
next
  case (Cons row rows)
  obtain idx rcd where row: "row = (idx, rcd)" by (cases row)
  from Cons.prems row obtain link where link: "map_of rcd ''Links'' = Some (Some link)"
    by auto
  let ?segs = "split_url p link"
  let ?d = "loc_set idx (map subdir [0..<length ?segs]) ?segs df"
  from Cons.prems have "\<forall>(idx, record) \<in> set rows. \<exists>link. map_of record ''Links'' = Some (Some link)"
    by simp
  from Cons.IH[OF this, of ?d "max m (length ?segs)"]
  obtain df' m' where r: "process_rows p rows (?d, max m (length ?segs)) = Inr (df', m')"
    and o: "only_adds_subdirs ?d df'" by blast
  have "only_adds_subdirs df ?d" by (rule only_adds_loc_set)
  then have "only_adds_subdirs df df'" using o by (rule only_adds_trans)
  then show ?case using row link r by (simp add: Let_def)
qed

lemma iterrows_Links:
  assumes "map_of (cols df) ''Links'' = Some vs" "length vs = n_rows df" "None \<notin> set vs"
  shows "\<forall>(idx, record) \<in> set (iterrows df). \<exists>link. map_of record ''Links'' = Some (Some link)"
proof -
  have "\<And>i. i < n_rows df \<Longrightarrow>
      \<exists>link. map_of (map (\<lambda>(c, vs). (c, vs ! i)) (cols df)) ''Links'' = Some (Some link)"
  proof -
    fix i assume "i < n_rows df"
    then have "vs ! i \<in> set vs" using assms(2) by simp
    then have "vs ! i \<noteq> None" using assms(3) by metis
    then obtain link where "vs ! i = Some link" by blast
    moreover have "map_of (map (\<lambda>(c, vs). (c, vs ! i)) (cols df)) ''Links'' = Some (vs ! i)"
      using assms(1) by (simp add: map_of_map)
    ultimately show "\<exists>link. map_of (map (\<lambda>(c, vs). (c, vs ! i)) (cols df)) ''Links'' = Some (Some link)"
      by simp
  qed
  then show ?thesis by (auto simp: iterrows_def)
qed

text \<open>
  Claim C9. For every frame whose \<open>Links\<close> column holds a string in every row,
  \<open>process_links\<close> returns, and the frame it returns has the same number of rows and the
  same \<open>Links\<close> column; it only adds columns labelled \<open>subdir1\<close>, \<open>subdir2\<close>, ... behind the
  columns of the input, and leaves every column with another label as it was.
\<close>

theorem process_links_frame:
  assumes "map_of (cols df) ''Links'' = Some vs" "length vs = n_rows df" "None \<notin> set vs"
  shows "\<exists>out. process_links df = Inr out \<and>
     n_rows out = n_rows df \<and>
     map_of (cols out) ''Links'' = Some vs \<and>
     only_adds_subdirs df out"
proof -
  from process_rows_only_adds[OF iterrows_Links[OF assms], of url_prefix df 0]
  obtain df' m' where r: "process_rows url_prefix (iterrows df) (df, 0) = Inr (df', m')"
    and o: "only_adds_subdirs df df'" by blast
  have "only_adds_subdirs df' (fill_columns m' df')" by (rule only_adds_fill_columns)
  with o have oo: "only_adds_subdirs df (fill_columns m' df')" by (rule only_adds_trans)
  have "''Links'' \<notin> range subdir" by auto
  with oo have "map_of (cols (fill_columns m' df')) ''Links'' = map_of (cols df) ''Links''"
    and "n_rows (fill_columns m' df') = n_rows df"
    by (simp_all add: only_adds_subdirs_def)
  then show ?thesis using r oo assms(1) by (simp add: process_links_def)
qed

theorem process_links_frame_witness:
  "map_of (cols \<lparr>n_rows = 2, cols = [(''Title'', [Some ''a'', None]),
        (''Links'', [Some ''https://www.datacamp.com/blog/x'', Some ''https://example.com/'']),
        (''subdir2'', [Some ''old'', Some ''old''])]\<rparr>) ''Links''
     = Some [Some ''https://www.datacamp.com/blog/x'', Some ''https://example.com/'']
   \<and> length [Some ''https://www.datacamp.com/blog/x'', Some ''https://example.com/'']
       = n_rows \<lparr>n_rows = 2, cols = [(''Title'', [Some ''a'', None]),
        (''Links'', [Some ''https://www.datacamp.com/blog/x'', Some ''https://example.com/'']),
        (''subdir2'', [Some ''old'', Some ''old''])]\<rparr>
   \<and> None \<notin> set [Some ''https://www.datacamp.com/blog/x'', Some ''https://example.com/'']
   \<and> (\<exists>out. process_links \<lparr>n_rows = 2, cols = [(''Title'', [Some ''a'', None]),
        (''Links'', [Some ''https://www.datacamp.com/blog/x'', Some ''https://example.com/'']),
        (''subdir2'', [Some ''old'', Some ''old''])]\<rparr> = Inr out \<and>
      n_rows out = 2 \<and>
      map_of (cols out) ''Links''
        = Some [Some ''https://www.datacamp.com/blog/x'', Some ''https://example.com/''] \<and>
      only_adds_subdirs \<lparr>n_rows = 2, cols = [(''Title'', [Some ''a'', None]),
        (''Links'', [Some ''https://www.datacamp.com/blog/x'', Some ''https://example.com/'']),
        (''subdir2'', [Some ''old'', Some ''old''])]\<rparr> out)"
proof -
  let ?vs = "[Some ''https://www.datacamp.com/blog/x'', Some ''https://example.com/'']"
  let ?df = "\<lparr>n_rows = 2, cols = [(''Title'', [Some ''a'', None]), (''Links'', ?vs),
        (''subdir2'', [Some ''old'', Some ''old''])]\<rparr>"
  have 1: "map_of (cols ?df) ''Links'' = Some ?vs" by simp
  have 2: "length ?vs = n_rows ?df" by simp
  have 3: "None \<notin> set ?vs" by simp
  from process_links_frame[OF 1 2 3] show ?thesis using 1 2 3 by simp
qed

section \<open>Properties of the walker\<close>

lemma process_sitemap_Suc:
  "process_sitemap (Suc depth) env url s =
     (case retrieve_web_data env url of
        Inl e \<Rightarrow> Some (Inl e)
      | Inr sitemap_xml \<Rightarrow>
          (case visit_locs depth env url (locs env url) [] (emit (Visit url) s) of
             None \<Rightarrow> None
           | Some (Inl e) \<Rightarrow> Some (Inl e)
           | Some (Inr (links, s')) \<Rightarrow>
               Some (Inr (emit (Store (identifier_of url))
                 (s'\<lparr>sitemaps_frames :=
                       dict_set (identifier_of url) (decompose url_prefix links)
                         (sitemaps_frames s')\<rparr>)))))"
  by (auto simp: locs_def process_links_DataFrame Let_def split: option.splits sum.splits)

lemma retrieve_web_data_returns:
  "only_request_exceptions env \<Longrightarrow> \<exists>sitemap_xml. retrieve_web_data env url = Inr sitemap_xml"
  by (cases "requests_get env url")
    (simp_all add: only_request_exceptions_def retrieve_web_data_def)

lemma retrieve_web_data_fails:
  "request_fails env url \<Longrightarrow> retrieve_web_data env url = Inr ''''"
  by (cases "requests_get env url") (simp_all add: request_fails_def retrieve_web_data_def)

lemma visit_locs_Cons:
  "visit_locs depth env url (location # rest) links s =
     (if str_endswith location ''.xml''
      then (case process_sitemap depth env location (emit (Append url location) s) of
              None \<Rightarrow> None
            | Some (Inl e) \<Rightarrow> Some (Inl e)
            | Some (Inr s'') \<Rightarrow> visit_locs depth env url rest (links @ [location]) s'')
      else visit_locs depth env url rest (links @ [location]) (emit (Append url location) s))"
  by (simp add: Let_def)

declare process_sitemap.simps(2) [simp del]
declare visit_locs.simps(2) [simp del]

lemma visit_locs_no_raise:
  assumes "\<And>url s e. process_sitemap depth env url s \<noteq> Some (Inl e)"
  shows "visit_locs depth env url ls links s \<noteq> Some (Inl e)"
proof (induction ls arbitrary: links s)
  case Nil
  then show ?case by simp
next
  case (Cons location rest)
  show ?case
    using assms Cons.IH
    by (auto simp: visit_locs_Cons split: option.splits sum.splits)
qed

lemma process_sitemap_no_raise:
  assumes "only_request_exceptions env"
  shows "process_sitemap depth env url s \<noteq> Some (Inl e)"
proof (induction depth arbitrary: url s e)
  case 0
  then show ?case by simp
next
  case (Suc depth)
  have "visit_locs depth env url (locs env url) [] (emit (Visit url) s) \<noteq> Some (Inl e)"
    using Suc.IH by (rule visit_locs_no_raise)
  then show ?case
    using retrieve_web_data_returns[OF assms, of url]
    by (auto simp: process_sitemap_Suc split: option.splits sum.splits)
qed

lemma visit_locs_links:
  "visit_locs depth env url ls links s = Some (Inr (links', s')) \<Longrightarrow> links' = links @ ls"
proof (induction ls arbitrary: links s)
  case Nil
  then show ?case by simp
next
  case (Cons location rest)
  from Cons.prems show ?case
    by (auto simp: visit_locs_Cons split: if_splits option.splits sum.splits dest: Cons.IH)
qed

text \<open>A call that returns within a bound on the nesting returns the same within any larger
  bound.\<close>

lemma visit_locs_mono:
  assumes "\<And>url s r. process_sitemap depth env url s = Some r \<Longrightarrow>
      process_sitemap (Suc depth) env url s = Some r"
  shows "visit_locs depth env url ls links s = Some r \<Longrightarrow>
      visit_locs (Suc depth) env url ls links s = Some r"
proof (induction ls arbitrary: links s)
  case Nil
  then show ?case by simp
next
  case (Cons location rest)
  show ?case
  proof (cases "str_endswith location ''.xml''")
    case False
    then show ?thesis using Cons by (simp add: visit_locs_Cons)
  next
    case True
    show ?thesis
    proof (cases "process_sitemap depth env location (emit (Append url location) s)")
      case None
      then show ?thesis using Cons.prems True by (simp add: visit_locs_Cons)
    next
      case (Some a)
      then have "process_sitemap (Suc depth) env location (emit (Append url location) s) = Some a"
        by (rule assms)
      then show ?thesis
        using Cons.prems True Some Cons.IH
        by (cases a) (simp_all add: visit_locs_Cons)
    qed
  qed
qed

lemma process_sitemap_mono_Suc:
  "process_sitemap depth env url s = Some r \<Longrightarrow> process_sitemap (Suc depth) env url s = Some r"
proof (induction depth arbitrary: url s r)
  case 0
  then show ?case by simp
next
  case (Suc depth)
  let ?v = "visit_locs depth env url (locs env url) [] (emit (Visit url) s)"
  show ?case
  proof (cases "retrieve_web_data env url")
    case (Inl e)
    then show ?thesis
      using Suc.prems by (simp add: process_sitemap_Suc)
  next
    case (Inr sitemap_xml)
    with Suc.prems obtain a where a: "?v = Some a"
      by (auto simp: process_sitemap_Suc[of depth] split: option.splits)
    then have "visit_locs (Suc depth) env url (locs env url) [] (emit (Visit url) s) = Some a"
      using Suc.IH by (intro visit_locs_mono)
    then show ?thesis
      using Suc.prems a Inr
      by (simp add: process_sitemap_Suc[of depth] process_sitemap_Suc[of "Suc depth"])
  qed
qed

lemma process_sitemap_mono:
  "d \<le> d' \<Longrightarrow> process_sitemap d env url s = Some r \<Longrightarrow> process_sitemap d' env url s = Some r"
  by (induction d' rule: nat_induct_at_least) (simp_all add: process_sitemap_mono_Suc)

lemma process_links_empty:
  "process_links (DataFrame []) = Inr \<lparr>n_rows = 0, cols = [(''Links'', [])]\<rparr>"
  by (simp add: process_links_DataFrame decompose_def)

text \<open>
  Claim C4, as the code has it. When the request for a sitemap ends in a
  \<open>RequestException\<close> (a connection error, a timeout, or a status code from 400 to 599,
  on which \<open>raise_for_status\<close> raises), \<open>retrieve_web_data\<close> catches it and gives the empty
  text, which has no \<open>loc\<close> entry. \<open>process_sitemap\<close> then returns without an exception,
  within every bound on the nesting of at least one call, and has stored a table with no
  rows under the identifier of the sitemap; and the loop of the parent that met this
  sitemap goes on with the entries behind it.
\<close>

theorem failed_fetch_is_empty_table:
  assumes "request_fails env url" and "find_all_loc env '''' = []"
  shows "retrieve_web_data env url = Inr ''''
         \<and> locs env url = []
         \<and> process_sitemap (Suc depth) env url s =
             Some (Inr (emit (Store (identifier_of url))
               (emit (Visit url) s
                  \<lparr>sitemaps_frames :=
                     dict_set (identifier_of url) \<lparr>n_rows = 0, cols = [(''Links'', [])]\<rparr>
                       (sitemaps_frames s)\<rparr>)))
         \<and> (str_endswith url ''.xml'' \<longrightarrow>
              visit_locs (Suc depth) env parent (url # rest) links s' =
                visit_locs (Suc depth) env parent rest (links @ [url])
                  (emit (Store (identifier_of url))
                     (emit (Visit url) (emit (Append parent url) s')
                        \<lparr>sitemaps_frames :=
                           dict_set (identifier_of url) \<lparr>n_rows = 0, cols = [(''Links'', [])]\<rparr>
                             (sitemaps_frames s')\<rparr>)))"
proof -
  have r: "retrieve_web_data env url = Inr ''''"
    using assms(1) by (rule retrieve_web_data_fails)
  have l: "locs env url = []"
    using assms(2) by (simp add: locs_def r)
  have p: "\<And>s. process_sitemap (Suc depth) env url s =
           Some (Inr (emit (Store (identifier_of url))
             (emit (Visit url) s
                \<lparr>sitemaps_frames :=
                   dict_set (identifier_of url) \<lparr>n_rows = 0, cols = [(''Links'', [])]\<rparr>
                     (sitemaps_frames s)\<rparr>)))"
    by (simp add: process_sitemap_Suc r l decompose_def emit_def)
  show ?thesis
    using r l p by (simp add: visit_locs_Cons emit_def)
qed

lemma identifier_examples:
  "identifier_of ''https://www.datacamp.com/missing.xml'' = ''missing.xml''"
  "identifier_of ''https://www.datacamp.com/sitemap1.xml'' = ''sitemap1.xml''"
  "identifier_of ''https://www.datacamp.com/sitemap_index.xml'' = ''sitemap_index.xml''"
  "identifier_of ''https://www.datacamp.com/a/sitemap.xml'' = ''sitemap.xml''"
  "identifier_of ''https://www.datacamp.com/b/sitemap.xml'' = ''sitemap.xml''"
  "identifier_of ''https://www.datacamp.com/moved.xml'' = ''moved.xml''"
  by (simp_all add: identifier_of_def str_split.simps)

theorem failed_fetch_is_empty_table_witness:
  "requests_get example_env ''https://www.datacamp.com/missing.xml'' = Response 404 ''Not Found''
   \<and> request_fails example_env ''https://www.datacamp.com/missing.xml''
   \<and> find_all_loc example_env '''' = []
   \<and> retrieve_web_data example_env ''https://www.datacamp.com/missing.xml'' = Inr ''''
   \<and> locs example_env ''https://www.datacamp.com/missing.xml'' = []
   \<and> process_sitemap (Suc 0) example_env ''https://www.datacamp.com/missing.xml'' fresh_scraper
       = Some (Inr \<lparr>base_url = ''https://www.datacamp.com'',
            sitemaps_frames = [(''missing.xml'', \<lparr>n_rows = 0, cols = [(''Links'', [])]\<rparr>)],
            trace = [Visit ''https://www.datacamp.com/missing.xml'', Store ''missing.xml'']\<rparr>)
   \<and> str_endswith ''https://www.datacamp.com/missing.xml'' ''.xml''
   \<and> visit_locs (Suc 0) example_env ''https://www.datacamp.com/sitemap_index.xml''
         [''https://www.datacamp.com/missing.xml'', ''https://www.datacamp.com/page-a''] []
         fresh_scraper
       = Some (Inr ([''https://www.datacamp.com/missing.xml'', ''https://www.datacamp.com/page-a''],
           \<lparr>base_url = ''https://www.datacamp.com'',
            sitemaps_frames = [(''missing.xml'', \<lparr>n_rows = 0, cols = [(''Links'', [])]\<rparr>)],
            trace = [Append ''https://www.datacamp.com/sitemap_index.xml''
                       ''https://www.datacamp.com/missing.xml'',
                     Visit ''https://www.datacamp.com/missing.xml'', Store ''missing.xml'',
                     Append ''https://www.datacamp.com/sitemap_index.xml''
                       ''https://www.datacamp.com/page-a'']\<rparr>))"
proof -
  have 0: "requests_get example_env ''https://www.datacamp.com/missing.xml''
      = Response 404 ''Not Found''"
    by (simp add: example_env_def)
  have 1: "request_fails example_env ''https://www.datacamp.com/missing.xml''"
    by (simp add: request_fails_def 0 raise_for_status_def)
  have 2: "find_all_loc example_env '''' = []"
    by (simp add: example_env_def)
  have 3: "str_endswith ''https://www.datacamp.com/missing.xml'' ''.xml''"
    by (simp add: str_endswith_def suffix_def)
  have 4: "\<not> str_endswith ''https://www.datacamp.com/page-a'' ''.xml''"
    by (simp add: str_endswith_def suffix_def)
  show ?thesis
    using 0 1 2 3 4
      failed_fetch_is_empty_table[OF 1 2, of 0 fresh_scraper
        "''https://www.datacamp.com/sitemap_index.xml''"
        "[''https://www.datacamp.com/page-a'']" "[]" fresh_scraper]
    by (simp add: identifier_examples fresh_scraper_def emit_def visit_locs_Cons)
qed

text \<open>
  Claim C4 as the specification words it counts every status outside 2xx as a failed
  fetch. On \<open>irregular_env\<close> the sitemap \<open>moved.xml\<close> is answered with status 300, on
  which \<open>raise_for_status\<close> does not raise: its document is read, it has one \<open>loc\<close> entry,
  and the table stored under its identifier has one row.
\<close>

theorem fetch_failure_counterexample:
  "requests_get irregular_env ''https://www.datacamp.com/moved.xml'' = Response 300 ''choices''
   \<and> \<not> raise_for_status 300
   \<and> locs irregular_env ''https://www.datacamp.com/moved.xml'' = [''https://www.datacamp.com/page-b'']
   \<and> process_sitemap 1 irregular_env ''https://www.datacamp.com/moved.xml'' fresh_scraper
       = Some (Inr moved_result)
   \<and> map_of (sitemaps_frames moved_result) ''moved.xml''
       = Some \<lparr>n_rows = 1,
                cols = [(''Links'', [Some ''https://www.datacamp.com/page-b'']),
                        (''subdir1'', [Some ''page-b''])]\<rparr>"
proof -
  have 1: "requests_get irregular_env ''https://www.datacamp.com/moved.xml''
      = Response 300 ''choices''"
    by (simp add: irregular_env_def)
  have 2: "locs irregular_env ''https://www.datacamp.com/moved.xml''
      = [''https://www.datacamp.com/page-b'']"
    by (simp add: locs_def retrieve_web_data_def 1 raise_for_status_def)
      (simp add: irregular_env_def)
  have 3: "process_sitemap 1 irregular_env ''https://www.datacamp.com/moved.xml'' fresh_scraper
       = Some (Inr moved_result)"
    by code_simp
  have 4: "map_of (sitemaps_frames moved_result) ''moved.xml''
       = Some \<lparr>n_rows = 1,
                cols = [(''Links'', [Some ''https://www.datacamp.com/page-b'']),
                        (''subdir1'', [Some ''page-b''])]\<rparr>"
    by (simp add: moved_result_def)
  have 5: "\<not> raise_for_status 300"
    by (simp add: raise_for_status_def)
  show ?thesis using 1 2 3 4 5 by simp
qed

text \<open>
  An exception of \<open>requests.get\<close> that is no \<open>RequestException\<close> is not caught: it leaves
  \<open>retrieve_web_data\<close> and \<open>process_sitemap\<close>, whatever the bound on the nesting, and
  nothing is stored. On \<open>irregular_env\<close> this is the request for \<open>bad.xml\<close>.
\<close>

lemma uncaught_exception_propagates:
  "requests_get env url = Uncaught e \<Longrightarrow> process_sitemap (Suc depth) env url s = Some (Inl e)"
  by (simp add: process_sitemap_Suc retrieve_web_data_def)

lemma uncaught_exception_example:
  "process_sitemap (Suc depth) irregular_env ''https://www.datacamp.com/bad.xml'' fresh_scraper
     = Some (Inl LocationParseError)"
  by (rule uncaught_exception_propagates) (simp add: irregular_env_def)




lemma visit_locs_returns:
  assumes "\<And>x s. x \<in> set ls \<Longrightarrow> str_endswith x ''.xml'' \<Longrightarrow>
      \<exists>s'. process_sitemap depth env x s = Some (Inr s')"
  shows "\<exists>r. visit_locs depth env url ls links s = Some (Inr r)"
  using assms
proof (induction ls arbitrary: links s)
  case Nil
  then show ?case by simp
next
  case (Cons location rest)
  have rest: "\<And>links s. \<exists>r. visit_locs depth env url rest links s = Some (Inr r)"
    using Cons.prems by (intro Cons.IH) simp_all
  show ?case
  proof (cases "str_endswith location ''.xml''")
    case True
    then obtain s' where "process_sitemap depth env location (emit (Append url location) s) = Some (Inr s')"
      using Cons.prems[of location] by auto
    then show ?thesis using True rest by (simp add: visit_locs_Cons)
  next
    case False
    then show ?thesis using rest by (simp add: visit_locs_Cons)
  qed
qed

lemma visit_locs_terminates:
  assumes "\<And>x s. x \<in> set ls \<Longrightarrow> str_endswith x ''.xml'' \<Longrightarrow>
      \<exists>r. process_sitemap depth env x s = Some r"
  shows "\<exists>r. visit_locs depth env url ls links s = Some r"
  using assms
proof (induction ls arbitrary: links s)
  case Nil
  then show ?case by simp
next
  case (Cons location rest)
  have rest: "\<And>links s. \<exists>r. visit_locs depth env url rest links s = Some r"
    using Cons.prems by (intro Cons.IH) simp_all
  show ?case
  proof (cases "str_endswith location ''.xml''")
    case True
    then obtain r where "process_sitemap depth env location (emit (Append url location) s) = Some r"
      using Cons.prems[of location] by auto
    then show ?thesis using True rest by (cases r) (simp_all add: visit_locs_Cons)
  next
    case False
    then show ?thesis using rest by (simp add: visit_locs_Cons)
  qed
qed

lemma common_depth:
  assumes "\<And>x. x \<in> set xs \<Longrightarrow> Q x \<Longrightarrow> \<exists>d. R d x"
    and "\<And>d d' x. d \<le> d' \<Longrightarrow> R d x \<Longrightarrow> R d' x"
  shows "\<exists>D::nat. \<forall>x \<in> set xs. Q x \<longrightarrow> R D x"
  using assms(1)
proof (induction xs)
  case Nil
  then show ?case by simp
next
  case (Cons x xs)
  then obtain D where D: "\<forall>y \<in> set xs. Q y \<longrightarrow> R D y" by auto
  show ?case
  proof (cases "Q x")
    case True
    then obtain d where d: "R d x" using Cons.prems[of x] by auto
    have "\<forall>y \<in> set (x # xs). Q y \<longrightarrow> R (max d D) y"
      using d D assms(2)[of d "max d D"] assms(2)[of D "max d D"] by auto
    then show ?thesis ..
  next
    case False
    then show ?thesis using D by auto
  qed
qed

lemma wf_refs_terminates:
  assumes "wf (xml_refs env)"
  shows "\<exists>depth. \<forall>s. \<exists>r. process_sitemap depth env url s = Some r"
  using assms
proof (induction url rule: wf_induct_rule)
  case (less url)
  let ?R = "\<lambda>d x. \<forall>s. \<exists>r. process_sitemap d env x s = Some r"
  have "\<exists>D. \<forall>x \<in> set (locs env url). str_endswith x ''.xml'' \<longrightarrow> ?R D x"
  proof (rule common_depth)
    fix x assume "x \<in> set (locs env url)" "str_endswith x ''.xml''"
    then have "(x, url) \<in> xml_refs env" by (simp add: xml_refs_def)
    then show "\<exists>d. ?R d x" by (rule less.IH)
  next
    fix d d' :: nat and x assume le: "d \<le> d'" and R: "?R d x"
    show "?R d' x"
    proof
      fix s
      from R obtain r where "process_sitemap d env x s = Some r" by blast
      then have "process_sitemap d' env x s = Some r"
        using le by (rule process_sitemap_mono[rotated])
      then show "\<exists>r. process_sitemap d' env x s = Some r" ..
    qed
  qed
  then obtain D where D: "\<forall>x \<in> set (locs env url). str_endswith x ''.xml'' \<longrightarrow> ?R D x" ..
  have v: "\<And>s. \<exists>r. visit_locs D env url (locs env url) [] (emit (Visit url) s) = Some r"
    using D by (intro visit_locs_terminates) blast
  have "?R (Suc D) url"
  proof
    fix s
    from v[of s] obtain r where
      "visit_locs D env url (locs env url) [] (emit (Visit url) s) = Some r"
      by blast
    then show "\<exists>r. process_sitemap (Suc D) env url s = Some r"
      by (auto simp: process_sitemap_Suc split: sum.splits)
  qed
  then show ?case ..
qed

lemma wf_refs_returns:
  assumes "wf (xml_refs env)" and "only_request_exceptions env"
  shows "\<exists>depth. \<forall>s. \<exists>s'. process_sitemap depth env url s = Some (Inr s')"
proof -
  from wf_refs_terminates[OF assms(1)] obtain depth where
    d: "\<forall>s. \<exists>r. process_sitemap depth env url s = Some r" ..
  have "\<forall>s. \<exists>s'. process_sitemap depth env url s = Some (Inr s')"
  proof
    fix s
    from d obtain r where r: "process_sitemap depth env url s = Some r" by blast
    show "\<exists>s'. process_sitemap depth env url s = Some (Inr s')"
    proof (cases r)
      case (Inl e)
      with r process_sitemap_no_raise[OF assms(2), of depth url s e] show ?thesis by simp
    next
      case (Inr s')
      with r show ?thesis by simp
    qed
  qed
  then show ?thesis ..
qed



lemma only_request_exceptions_examples:
  "only_request_exceptions example_env"
  "only_request_exceptions cyclic_env"
  "only_request_exceptions collision_env"
  by (simp_all add: only_request_exceptions_def example_env_def cyclic_env_def
      collision_env_def)





















lemma keys_dict_set:
  "map fst (dict_set k v d) = (if k \<in> set (map fst d) then map fst d else map fst d @ [k])"
  by (induction d) force+

lemma distinct_dict_set:
  "distinct (map fst d) \<Longrightarrow> distinct (map fst (dict_set k v d))"
  by (simp add: keys_dict_set)

lemma filter_absent_key:
  "k \<notin> fst ` set d \<Longrightarrow> filter (\<lambda>(k', v'). k' = k) d = []"
  by (induction d) auto

lemma filter_dict_set:
  "distinct (map fst d) \<Longrightarrow> filter (\<lambda>(k', v'). k' = k) (dict_set k v d) = [(k, v)]"
proof (induction d)
  case Nil
  then show ?case by simp
next
  case (Cons a d)
  obtain k' v' where a: "a = (k', v')" by (cases a)
  show ?case
  proof (cases "k' = k")
    case True
    with Cons.prems a have "k \<notin> fst ` set d" by simp
    then have "filter (\<lambda>(k', v'). k' = k) d = []"
      by (rule filter_absent_key)
    with True a show ?thesis by simp
  next
    case False
    with Cons a show ?thesis by simp
  qed
qed

lemma visit_locs_distinct:
  assumes "\<And>url s s'. distinct (map fst (sitemaps_frames s)) \<Longrightarrow>
      process_sitemap depth env url s = Some (Inr s') \<Longrightarrow> distinct (map fst (sitemaps_frames s'))"
  shows "distinct (map fst (sitemaps_frames s)) \<Longrightarrow>
      visit_locs depth env url ls links s = Some (Inr (links', s')) \<Longrightarrow>
      distinct (map fst (sitemaps_frames s'))"
proof (induction ls arbitrary: links s)
  case Nil
  then show ?case by simp
next
  case (Cons location rest)
  have e: "distinct (map fst (sitemaps_frames (emit (Append url location) s)))"
    using Cons.prems(1) by (simp add: emit_def)
  show ?case
  proof (cases "str_endswith location ''.xml''")
    case False
    with Cons.prems(2) have "visit_locs depth env url rest (links @ [location])
        (emit (Append url location) s) = Some (Inr (links', s'))"
      by (simp add: visit_locs_Cons)
    with e show ?thesis by (rule Cons.IH)
  next
    case True
    with Cons.prems(2) obtain s1 where
      p: "process_sitemap depth env location (emit (Append url location) s) = Some (Inr s1)"
      and r: "visit_locs depth env url rest (links @ [location]) s1 = Some (Inr (links', s'))"
      by (auto simp: visit_locs_Cons split: option.splits sum.splits)
    from assms[OF e p] have "distinct (map fst (sitemaps_frames s1))" .
    then show ?thesis using r by (rule Cons.IH)
  qed
qed

lemma process_sitemap_stores:
  "distinct (map fst (sitemaps_frames s)) \<Longrightarrow>
   process_sitemap depth env url s = Some (Inr s') \<Longrightarrow>
   distinct (map fst (sitemaps_frames s')) \<and>
   filter (\<lambda>(k, t). k = identifier_of url) (sitemaps_frames s')
     = [(identifier_of url, decompose url_prefix (locs env url))]"
proof (induction depth arbitrary: url s s')
  case 0
  then show ?case by simp
next
  case (Suc depth)
  from Suc.prems(2) obtain links s1 where
    v: "visit_locs depth env url (locs env url) [] (emit (Visit url) s) = Some (Inr (links, s1))"
    and s': "s' = emit (Store (identifier_of url))
            (s1\<lparr>sitemaps_frames :=
                  dict_set (identifier_of url) (decompose url_prefix links) (sitemaps_frames s1)\<rparr>)"
    by (auto simp: process_sitemap_Suc split: option.splits sum.splits)
  from visit_locs_links[OF v] have links: "links = locs env url" by simp
  have "distinct (map fst (sitemaps_frames (emit (Visit url) s)))"
    using Suc.prems(1) by (simp add: emit_def)
  moreover have "\<And>url s s'. distinct (map fst (sitemaps_frames s)) \<Longrightarrow>
      process_sitemap depth env url s = Some (Inr s') \<Longrightarrow> distinct (map fst (sitemaps_frames s'))"
    using Suc.IH by blast
  ultimately have d: "distinct (map fst (sitemaps_frames s1))"
    using v by (intro visit_locs_distinct[where s'=s1]) 
  show ?case
    using d s' links by (simp add: emit_def distinct_dict_set filter_dict_set)
qed

lemma str_join_last:
  "segs \<noteq> [] \<Longrightarrow> \<exists>pre. str_join sep segs = pre @ last segs \<and> (pre = [] \<or> suffix sep pre)"
proof (induction sep segs rule: str_join.induct)
  case (1 sep)
  then show ?case by simp
next
  case (2 sep x)
  then show ?case by simp
next
  case (3 sep x y ys)
  then obtain pre where pre: "str_join sep (y # ys) = pre @ last (y # ys)"
    and s: "pre = [] \<or> suffix sep pre" by auto
  have "str_join sep (x # y # ys) = (x @ sep @ pre) @ last (x # y # ys)"
    using pre by simp
  moreover have "suffix sep (x @ sep @ pre)"
    using s by (auto simp: suffix_def)
  ultimately show ?case by blast
qed

lemma identifier_of_last_segment:
  "\<exists>pre. url = pre @ identifier_of url \<and> (pre = [] \<or> suffix ''/'' pre)"
  using str_join_last[OF str_split_not_Nil, of "''/''" url "''/''"]
  by (simp add: str_join_split identifier_of_def)

lemma identifier_of_no_slash: "CHR ''/'' \<notin> set (identifier_of url)"
  using str_split_no_sep[of "identifier_of url" url "CHR ''/''"] str_split_not_Nil[of url "''/''"]
  by (simp add: identifier_of_def)

text \<open>
  Claim C6. The identifier of a sitemap is the part of its URL behind the last \<open>/\<close>. On a
  web whose graph of nested sitemaps has no infinite descent and whose requests raise
  nothing that \<open>retrieve_web_data\<close> does not catch, take two different sitemaps with the
  same identifier: within some bound on the nesting \<open>process_sitemap\<close> returns for the
  first and then for the second, the collection holds one table under that identifier
  after the first call, the table of the first sitemap, and one table under it after the
  second call, the table of the second sitemap: the table the first call had stored
  there is overwritten.
\<close>

theorem same_identifier_overwrites:
  assumes "distinct (map fst (sitemaps_frames s))"
    and "wf (xml_refs env)" and "only_request_exceptions env"
    and "u1 \<noteq> u2" and "identifier_of u1 = identifier_of u2"
  shows "(\<exists>pre. u2 = pre @ identifier_of u2 \<and> (pre = [] \<or> suffix ''/'' pre))
         \<and> CHR ''/'' \<notin> set (identifier_of u2)
         \<and> (\<exists>depth s1 s2.
               process_sitemap depth env u1 s = Some (Inr s1) \<and>
               process_sitemap depth env u2 s1 = Some (Inr s2) \<and>
               (\<exists>t1. process_links (DataFrame (locs env u1)) = Inr t1 \<and>
                  filter (\<lambda>(k, t). k = identifier_of u1) (sitemaps_frames s1)
                    = [(identifier_of u1, t1)]) \<and>
               (\<exists>t2. process_links (DataFrame (locs env u2)) = Inr t2 \<and>
                  filter (\<lambda>(k, t). k = identifier_of u1) (sitemaps_frames s2)
                    = [(identifier_of u1, t2)]))"
proof -
  from wf_refs_returns[OF assms(2,3), of u1] obtain d1 where
    d1: "\<forall>s. \<exists>s'. process_sitemap d1 env u1 s = Some (Inr s')" ..
  from wf_refs_returns[OF assms(2,3), of u2] obtain d2 where
    d2: "\<forall>s. \<exists>s'. process_sitemap d2 env u2 s = Some (Inr s')" ..
  from d1 obtain s1 where "process_sitemap d1 env u1 s = Some (Inr s1)" by blast
  then have r1: "process_sitemap (max d1 d2) env u1 s = Some (Inr s1)"
    by (rule process_sitemap_mono[rotated]) simp
  from d2 obtain s2 where "process_sitemap d2 env u2 s1 = Some (Inr s2)" by blast
  then have r2: "process_sitemap (max d1 d2) env u2 s1 = Some (Inr s2)"
    by (rule process_sitemap_mono[rotated]) simp
  from process_sitemap_stores[OF assms(1) r1]
  have ds: "distinct (map fst (sitemaps_frames s1))"
    and f1: "filter (\<lambda>(k, t). k = identifier_of u1) (sitemaps_frames s1)
      = [(identifier_of u1, decompose url_prefix (locs env u1))]"
    by simp_all
  from process_sitemap_stores[OF ds r2]
  have f2: "filter (\<lambda>(k, t). k = identifier_of u1) (sitemaps_frames s2)
      = [(identifier_of u1, decompose url_prefix (locs env u2))]"
    using assms(5) by simp
  have t1: "\<exists>t1. process_links (DataFrame (locs env u1)) = Inr t1 \<and>
                  filter (\<lambda>(k, t). k = identifier_of u1) (sitemaps_frames s1)
                    = [(identifier_of u1, t1)]"
    using f1 by (simp add: process_links_DataFrame)
  have t2: "\<exists>t2. process_links (DataFrame (locs env u2)) = Inr t2 \<and>
                  filter (\<lambda>(k, t). k = identifier_of u1) (sitemaps_frames s2)
                    = [(identifier_of u1, t2)]"
    using f2 by (simp add: process_links_DataFrame)
  have runs: "\<exists>depth s1 s2.
               process_sitemap depth env u1 s = Some (Inr s1) \<and>
               process_sitemap depth env u2 s1 = Some (Inr s2) \<and>
               (\<exists>t1. process_links (DataFrame (locs env u1)) = Inr t1 \<and>
                  filter (\<lambda>(k, t). k = identifier_of u1) (sitemaps_frames s1)
                    = [(identifier_of u1, t1)]) \<and>
               (\<exists>t2. process_links (DataFrame (locs env u2)) = Inr t2 \<and>
                  filter (\<lambda>(k, t). k = identifier_of u1) (sitemaps_frames s2)
                    = [(identifier_of u1, t2)])"
    by (rule exI[where x="max d1 d2"], rule exI[where x=s1], rule exI[where x=s2])
      (intro conjI r1 r2 t1 t2)
  show ?thesis
    using identifier_of_last_segment[of u2] identifier_of_no_slash[of u2] runs
    by (intro conjI)
qed

lemma collision_runs:
  "process_sitemap 1 collision_env ''https://www.datacamp.com/a/sitemap.xml'' fresh_scraper
     = Some (Inr collision_first)"
  "process_sitemap 1 collision_env ''https://www.datacamp.com/b/sitemap.xml'' collision_first
     = Some (Inr collision_second)"
  by code_simp+

lemma locs_collision_env:
  "locs collision_env p =
     (if p = ''https://www.datacamp.com/a/sitemap.xml'' then [''https://www.datacamp.com/a/page'']
      else if p = ''https://www.datacamp.com/b/sitemap.xml''
      then [''https://www.datacamp.com/b/x/y'']
      else [])"
  by (simp add: locs_def retrieve_web_data_def raise_for_status_def collision_env_def)

lemma xml_refs_collision_env: "xml_refs collision_env = {}"
proof -
  have "\<not> str_endswith ''https://www.datacamp.com/a/page'' ''.xml''"
    "\<not> str_endswith ''https://www.datacamp.com/b/x/y'' ''.xml''"
    by (simp_all add: str_endswith_def suffix_def)
  then show ?thesis
    by (auto simp: xml_refs_def locs_collision_env split: if_splits)
qed

theorem same_identifier_overwrites_witness:
  "distinct (map fst (sitemaps_frames fresh_scraper))
   \<and> wf (xml_refs collision_env) \<and> only_request_exceptions collision_env
   \<and> ''https://www.datacamp.com/a/sitemap.xml'' \<noteq> ''https://www.datacamp.com/b/sitemap.xml''
   \<and> identifier_of ''https://www.datacamp.com/a/sitemap.xml''
       = identifier_of ''https://www.datacamp.com/b/sitemap.xml''
   \<and> process_sitemap 1 collision_env ''https://www.datacamp.com/a/sitemap.xml'' fresh_scraper
       = Some (Inr collision_first)
   \<and> process_sitemap 1 collision_env ''https://www.datacamp.com/b/sitemap.xml'' collision_first
       = Some (Inr collision_second)
   \<and> (\<exists>t2. process_links (DataFrame (locs collision_env ''https://www.datacamp.com/b/sitemap.xml''))
           = Inr t2 \<and>
         filter (\<lambda>(k, t). k = identifier_of ''https://www.datacamp.com/a/sitemap.xml'')
           (sitemaps_frames collision_second)
           = [(identifier_of ''https://www.datacamp.com/a/sitemap.xml'', t2)])
   \<and> sitemaps_frames collision_second =
        [(''sitemap.xml'',
          \<lparr>n_rows = 1,
           cols = [(''Links'', [Some ''https://www.datacamp.com/b/x/y'']),
                   (''subdir1'', [Some ''b'']), (''subdir2'', [Some ''x'']),
                   (''subdir3'', [Some ''y''])]\<rparr>)]"
proof -
  let ?u1 = "''https://www.datacamp.com/a/sitemap.xml''"
  let ?u2 = "''https://www.datacamp.com/b/sitemap.xml''"
  have 1: "distinct (map fst (sitemaps_frames fresh_scraper))"
    by (simp add: fresh_scraper_def)
  have 2: "wf (xml_refs collision_env)"
    by (simp add: xml_refs_collision_env)
  note 3 = only_request_exceptions_examples(3)
  have 4: "?u1 \<noteq> ?u2"
    by simp
  have 5: "identifier_of ?u1 = identifier_of ?u2"
    by (simp add: identifier_examples)
  from same_identifier_overwrites[OF 1 2 3 4 5] obtain depth s1 s2 where
    r1: "process_sitemap depth collision_env ?u1 fresh_scraper = Some (Inr s1)"
    and r2: "process_sitemap depth collision_env ?u2 s1 = Some (Inr s2)"
    and t2: "\<exists>t2. process_links (DataFrame (locs collision_env ?u2)) = Inr t2 \<and>
               filter (\<lambda>(k, t). k = identifier_of ?u1) (sitemaps_frames s2)
                 = [(identifier_of ?u1, t2)]"
    by blast
  have "process_sitemap (max depth 1) collision_env ?u1 fresh_scraper = Some (Inr s1)"
    using process_sitemap_mono[OF _ r1, of "max depth 1"] by simp
  moreover have "process_sitemap (max depth 1) collision_env ?u1 fresh_scraper
      = Some (Inr collision_first)"
    using process_sitemap_mono[OF _ collision_runs(1), of "max depth 1"] by simp
  ultimately have s1: "s1 = collision_first" by simp
  have "process_sitemap (max depth 1) collision_env ?u2 collision_first = Some (Inr s2)"
    using process_sitemap_mono[OF _ r2, of "max depth 1"] s1 by simp
  moreover have "process_sitemap (max depth 1) collision_env ?u2 collision_first
      = Some (Inr collision_second)"
    using process_sitemap_mono[OF _ collision_runs(2), of "max depth 1"] by simp
  ultimately have s2: "s2 = collision_second" by simp
  have 6: "sitemaps_frames collision_second =
        [(''sitemap.xml'',
          \<lparr>n_rows = 1,
           cols = [(''Links'', [Some ''https://www.datacamp.com/b/x/y'']),
                   (''subdir1'', [Some ''b'']), (''subdir2'', [Some ''x'']),
                   (''subdir3'', [Some ''y''])]\<rparr>)]"
    by (simp add: collision_second_def)
  show ?thesis
    using 1 2 3 4 5 collision_runs t2[unfolded s2] 6 by (intro conjI)
qed

section \<open>Properties of \<open>collect_sitemaps\<close>\<close>

text \<open>
  Claim C7 says that root discovery never raises, also on a line that starts with
  \<open>Sitemap:\<close> and has no colon followed by a space. On the \<open>robots.txt\<close> with the one line
  \<open>Sitemap:https://www.datacamp.com/sitemap.xml\<close> the split at \<open>": "\<close> gives one piece, and
  taking the piece at index 1 raises \<open>IndexError\<close>, out of \<open>collect_sitemaps\<close> and out of the
  constructor, for every bound on the nesting.
\<close>

theorem collect_sitemaps_raises_IndexError:
  "init_scraper depth robots_no_space_env ''https://www.datacamp.com'' = Some (Inl IndexError)"
  by (simp add: init_scraper_def collect_sitemaps_def retrieve_web_data_def raise_for_status_def
      robots_no_space_env_def str_split.simps str_startswith_def list_item_def)

lemma collect_lines_no_directive:
  "\<forall>line \<in> set lines. \<not> str_startswith line ''Sitemap:'' \<Longrightarrow>
     collect_lines depth env lines s = Some (Inr s)"
  by (induction lines) simp_all

section \<open>Properties of the exporter\<close>

lemma os_path_join_relative:
  "CHR ''/'' \<notin> set k \<Longrightarrow> folder \<noteq> [] \<Longrightarrow>
   os_path_join folder (k @ ''.csv'') =
     (if str_endswith folder ''/'' then folder else folder @ ''/'') @ k @ ''.csv''"
  by (cases k) (auto simp: os_path_join_def str_startswith_def)


lemma os_path_join_not_folder:
  "CHR ''/'' \<notin> set k \<Longrightarrow> folder \<noteq> [] \<Longrightarrow> os_path_join folder (k @ ''.csv'') \<noteq> folder"
  by (simp add: os_path_join_relative)

















text \<open>
  A folder whose parent does not exist is not created: \<open>os.mkdir\<close> raises
  \<open>FileNotFoundError\<close>, out of \<open>export_to_csv\<close>, and nothing is written.
\<close>

lemma export_to_csv_missing_parent:
  "export_to_csv example_result ''a/b'' \<lparr>dirs = {}, files = Map.empty\<rparr> = Inl FileNotFoundError"
  by (simp add: export_to_csv_def os_mkdir_def os_path_isdir_def parent_exists_def
      parent_of_def os_path_dirname_def rstrip_slashes_def)

end
